theory Spec2Isabelle
  imports Complex_Main "HOL-Library.Word"
begin

section \<open>The CSV parser of clickhouse\_sinker (package parser)\<close>

text \<open>
  The file under study decodes one delimited record into a \<open>CsvMetric\<close> and reads its
  cells through typed getters. Go's \<open>string\<close> and \<open>[]byte\<close> are byte sequences, here
  \<open>string\<close>; \<open>int64\<close> is a 64-bit word read as two's complement; \<open>float64\<close> and
  \<open>time.Time\<close> stay abstract (the type variables \<open>'f\<close> and \<open>'t\<close>), since the file
  only passes such values between the packages it imports.
\<close>

type_synonym int64 = "64 word"

subsection \<open>Values, errors and halts\<close>

text \<open>
  The getters return \<open>interface{}\<close>: the dynamic value is \<open>nil\<close>, a scalar, or a slice.
\<close>

datatype ('f, 't) val =
    VNil
  | VString string
  | VFloat64 'f
  | VBool bool
  | VInt64 int64
  | VTime 't
  | VBools "bool list"
  | VInt64s "int64 list"
  | VFloat64s "'f list"
  | VStrings "string list"
  | VTimes "'t list"

text \<open>
  An \<open>error\<close> is Go's \<open>error\<close> value: one made by an imported package (the CSV
  reader, \<open>strconv\<close>, the date-format resolver), one wrapped by \<open>errors.Wrap\<close>, or
  one made by \<open>errors.Errorf\<close>.
\<close>

datatype error =
    library_error string
  | errors_Wrap error string
  | errors_Errorf string

text \<open>
  The element-type selector of \<open>GetArray\<close> is an \<open>int\<close> compared against five constants
  of package \<open>model\<close>. The constants are pairwise distinct (they label the cases of one
  \<open>switch\<close>), so a selector is one of them or some other integer.
\<close>

datatype model_type =
    model_Bool
  | model_Int
  | model_Float
  | model_String
  | model_DateTime
  | model_other int

text \<open>
  A \<open>halt\<close> ends the call without a value: a run-time panic of Go (an index out of
  range, a failed type assertion) or \<open>util.Logger.Fatal\<close>, which exits the process. The
  two fatal sites log the same message, \<open>LOGIC ERROR: unsupported array type\<close>; the
  constructor records which site was reached.
\<close>

datatype halt =
    Panic_index_out_of_range
  | Panic_type_assertion
  | Fatal_GetArray model_type
  | Fatal_makeArray model_type

subsection \<open>Configuration and the metric\<close>

text \<open>
  The fields of \<open>Pool\<close> this file reads: \<open>csvFormat\<close> is a \<open>map[string]int\<close> from
  column name to field position, \<open>delimiter\<close> a string, \<open>timeUnit\<close> a \<open>float64\<close>.
\<close>

record 'f Pool =
  csvFormat :: "string \<rightharpoonup> int"
  delimiter :: string
  timeUnit :: 'f

record 'f CsvParser =
  parser_pp :: "'f Pool"

record 'f CsvMetric =
  pp :: "'f Pool"
  values' :: "string list"

subsection \<open>What the file imports\<close>

text \<open>
  \<open>gjson.Result\<close> and its \<open>Type\<close>.
\<close>

datatype gjson_Type =
    gjson_Null
  | gjson_False
  | gjson_Number
  | gjson_String
  | gjson_True
  | gjson_JSON

record 'f Result =
  Type :: gjson_Type
  Raw :: string
  Str :: string
  Num :: 'f

text \<open>
  The reader of \<open>encoding/csv\<close>, as far as \<open>Parse\<close> configures it.
  \<open>csv.NewReader\<close> sets the comma and leaves \<open>FieldsPerRecord\<close> zero.
\<close>

record csv_Reader =
  Comma :: char
  FieldsPerRecord :: int

definition csv_NewReader :: csv_Reader where
  "csv_NewReader = \<lparr>Comma = CHR '','', FieldsPerRecord = 0\<rparr>"

text \<open>
  Functions and constants defined outside this file, that the file calls: the standard
  library (\<open>encoding/csv\<close>, \<open>strconv\<close>, \<open>time\<close>), the packages \<open>fastfloat\<close> and
  \<open>gjson\<close>, the conversion and comparison of \<open>float64\<close>, and three names of package
  \<open>parser\<close> itself (\<open>Pool.ParseDateTime\<close>, \<open>UnixFloat\<close>, \<open>Epoch\<close>). The model takes
  them as one record of parameters: a theorem about a getter holds for whatever these
  functions compute, unless it names what one of them is. The two parsers of
  \<open>fastfloat\<close> are also written out further below, for the theorems on \<open>GetInt\<close> and
  \<open>GetFloat\<close>. A Go function returning \<open>(v, err)\<close> whose \<open>v\<close> the caller drops on
  error is a sum; \<open>strconv.ParseFloat\<close> keeps both components.
\<close>

record ('f, 't) deps =
  csv_Read :: "csv_Reader \<Rightarrow> string \<Rightarrow> error + string list"
  strconv_ParseFloat :: "string \<Rightarrow> 'f \<times> error option"
  fastfloat_ParseBestEffort :: "string \<Rightarrow> 'f"
  fastfloat_ParseInt64BestEffort :: "string \<Rightarrow> int64"
  gjson_Parse :: "string \<Rightarrow> 'f Result"
  gjson_Array :: "'f Result \<Rightarrow> 'f Result list"
  gjson_Int :: "'f Result \<Rightarrow> int64"
  float64_of_int64 :: "int64 \<Rightarrow> 'f"
  float64_eq :: "'f \<Rightarrow> 'f \<Rightarrow> bool"
  float64_zero :: "'f"
  time_Unix :: "'t \<Rightarrow> int64"
  ParseDateTime :: "'f Pool \<Rightarrow> string \<Rightarrow> string \<Rightarrow> error + 't"
  UnixFloat :: "'f \<Rightarrow> 'f \<Rightarrow> 't"
  Epoch :: "'t"

subsection \<open>Parse\<close>

text \<open>
  The first lines of \<open>Parse\<close> build the reader: \<open>len\<close> of a map is the number of its
  keys, and the comma is the first byte of a non-empty delimiter.
\<close>

definition Parse_reader :: "'f CsvParser \<Rightarrow> csv_Reader" where
  "Parse_reader p =
     (let r = csv_NewReader;
          r = r\<lparr>FieldsPerRecord := int (card (dom (csvFormat (parser_pp p))))\<rparr>
      in if length (delimiter (parser_pp p)) > 0
         then r\<lparr>Comma := delimiter (parser_pp p) ! 0\<rparr> else r)"

definition Parse :: "('f, 't) deps \<Rightarrow> 'f CsvParser \<Rightarrow> string \<Rightarrow> error + 'f CsvMetric" where
  "Parse D p bs =
     (case csv_Read D (Parse_reader p) bs of
           Inl err \<Rightarrow> Inl (errors_Wrap err [])
         | Inr value \<Rightarrow>
             if length value \<noteq> card (dom (csvFormat (parser_pp p)))
             then Inl (errors_Errorf ''csv value doesn't match the format'')
             else Inr \<lparr>pp = parser_pp p, values' = value\<rparr>)"

subsection \<open>The scalar getters\<close>

text \<open>
  \<open>c.values[idx]\<close>: Go panics when the index is out of range.
\<close>

definition index :: "string list \<Rightarrow> int \<Rightarrow> halt + string" where
  "index xs i =
     (if 0 \<le> i \<and> i < int (length xs) then Inr (xs ! nat i)
      else Inl Panic_index_out_of_range)"

definition GetString :: "'f CsvMetric \<Rightarrow> string \<Rightarrow> bool \<Rightarrow> halt + ('f, 't) val" where
  "GetString c key nullable =
     (case csvFormat (pp c) key of
        None \<Rightarrow> Inr (if nullable then VNil else VString [])
      | Some idx \<Rightarrow>
          (case index (values' c) idx of
             Inl h \<Rightarrow> Inl h
           | Inr v \<Rightarrow>
               if v = ''null'' then Inr (if nullable then VNil else VString [])
               else Inr (VString v)))"

definition GetFloat ::
  "('f, 't) deps \<Rightarrow> 'f CsvMetric \<Rightarrow> string \<Rightarrow> bool \<Rightarrow> halt + ('f, 't) val" where
  "GetFloat D c key nullable =
     (case csvFormat (pp c) key of
        None \<Rightarrow> Inr (if nullable then VNil else VFloat64 (float64_zero D))
      | Some idx \<Rightarrow>
          (case index (values' c) idx of
             Inl h \<Rightarrow> Inl h
           | Inr v \<Rightarrow>
               if v = ''null'' then Inr (if nullable then VNil else VFloat64 (float64_zero D))
               else Inr (VFloat64 (fastfloat_ParseBestEffort D v))))"

definition GetBool :: "'f CsvMetric \<Rightarrow> string \<Rightarrow> bool \<Rightarrow> halt + ('f, 't) val" where
  "GetBool c key nullable =
     (case csvFormat (pp c) key of
        None \<Rightarrow> Inr (if nullable then VNil else VBool False)
      | Some idx \<Rightarrow>
          (case index (values' c) idx of
             Inl h \<Rightarrow> Inl h
           | Inr v \<Rightarrow>
               if v = [] \<or> v = ''null'' then Inr (if nullable then VNil else VBool False)
               else Inr (VBool (v = ''true''))))"

definition GetInt ::
  "('f, 't) deps \<Rightarrow> 'f CsvMetric \<Rightarrow> string \<Rightarrow> bool \<Rightarrow> halt + ('f, 't) val" where
  "GetInt D c key nullable =
     (case csvFormat (pp c) key of
        None \<Rightarrow> Inr (if nullable then VNil else VInt64 0)
      | Some idx \<Rightarrow>
          (case index (values' c) idx of
             Inl h \<Rightarrow> Inl h
           | Inr s \<Rightarrow>
               if s = ''null'' then Inr (if nullable then VNil else VInt64 0)
               else if s = ''true'' then Inr (VInt64 1)
               else Inr (VInt64 (fastfloat_ParseInt64BestEffort D s))))"

definition GetDateTime ::
  "('f, 't) deps \<Rightarrow> 'f CsvMetric \<Rightarrow> string \<Rightarrow> bool \<Rightarrow> halt + ('f, 't) val" where
  "GetDateTime D c key nullable =
     (case csvFormat (pp c) key of
        None \<Rightarrow> Inr (if nullable then VNil else VTime (Epoch D))
      | Some idx \<Rightarrow>
          (case index (values' c) idx of
             Inl h \<Rightarrow> Inl h
           | Inr s \<Rightarrow>
               if s = ''null'' then Inr (if nullable then VNil else VTime (Epoch D))
               else
                 (case strconv_ParseFloat D s of
                    (dd, Some err) \<Rightarrow>
                      (case ParseDateTime D (pp c) key s of
                         Inl err' \<Rightarrow> Inr (VTime (Epoch D))
                       | Inr t \<Rightarrow> Inr (VTime t))
                  | (dd, None) \<Rightarrow> Inr (VTime (UnixFloat D dd (timeUnit (pp c)))))))"

text \<open>
  \<open>t.(time.Time)\<close> is a type assertion: it panics on a value that is not a time.
\<close>

definition GetElasticDateTime ::
  "('f, 't) deps \<Rightarrow> 'f CsvMetric \<Rightarrow> string \<Rightarrow> bool \<Rightarrow> halt + ('f, 't) val" where
  "GetElasticDateTime D c key nullable =
     (case GetDateTime D c key nullable of
        Inl h \<Rightarrow> Inl h
      | Inr t \<Rightarrow>
          (case t of
             VNil \<Rightarrow> Inr VNil
           | VTime tm \<Rightarrow> Inr (VInt64 (time_Unix D tm))
           | _ \<Rightarrow> Inl Panic_type_assertion))"

subsection \<open>GetArray\<close>

text \<open>
  Modelled from the spec: \<open>makeArray\<close>, the helper of package \<open>parser\<close> that \<open>GetArray\<close>
  calls for its default and that is defined in another file. The spec gives its result
  as an empty array of the requested element type, and the request for an element type
  outside the five as the fatal configuration error.
\<close>

definition makeArray :: "model_type \<Rightarrow> halt + ('f, 't) val" where
  "makeArray typ =
     (case typ of
        model_Bool \<Rightarrow> Inr (VBools [])
      | model_Int \<Rightarrow> Inr (VInt64s [])
      | model_Float \<Rightarrow> Inr (VFloat64s [])
      | model_String \<Rightarrow> Inr (VStrings [])
      | model_DateTime \<Rightarrow> Inr (VTimes [])
      | model_other n \<Rightarrow> Inl (Fatal_makeArray typ))"

text \<open>
  \<open>str, _ := s.(string)\<close>: the two-result assertion yields the empty string, and no
  panic, on a value that is not a string.
\<close>

definition string_or_empty :: "('f, 't) val \<Rightarrow> string" where
  "string_or_empty s = (case s of VString str \<Rightarrow> str | _ \<Rightarrow> [])"

text \<open>
  Each case of the \<open>switch\<close> runs \<open>for _, e := range array\<close> and appends one value per
  element to \<open>results\<close>.
\<close>

fun range_append :: "('a \<Rightarrow> 'b) \<Rightarrow> 'a list \<Rightarrow> 'b list \<Rightarrow> 'b list" where
  "range_append body [] results = results"
| "range_append body (e # array) results = range_append body array (results @ [body e])"

definition elem_Bool :: "'f Result \<Rightarrow> bool" where
  "elem_Bool e = (Type e = gjson_True)"

definition elem_Int :: "('f, 't) deps \<Rightarrow> 'f Result \<Rightarrow> int64" where
  "elem_Int D e =
     (case Type e of
        gjson_True \<Rightarrow> 1
      | gjson_Number \<Rightarrow>
          (let v = gjson_Int D e
           in if \<not> float64_eq D (float64_of_int64 D v) (Num e) then 0 else v)
      | _ \<Rightarrow> 0)"

definition elem_Float :: "('f, 't) deps \<Rightarrow> 'f Result \<Rightarrow> 'f" where
  "elem_Float D e = (case Type e of gjson_Number \<Rightarrow> Num e | _ \<Rightarrow> float64_zero D)"

definition elem_String :: "'f Result \<Rightarrow> string" where
  "elem_String e = (case Type e of gjson_Null \<Rightarrow> [] | gjson_String \<Rightarrow> Str e | _ \<Rightarrow> Raw e)"

definition elem_DateTime :: "('f, 't) deps \<Rightarrow> 'f CsvMetric \<Rightarrow> string \<Rightarrow> 'f Result \<Rightarrow> 't" where
  "elem_DateTime D c key e =
     (case Type e of
        gjson_Number \<Rightarrow> UnixFloat D (Num e) (timeUnit (pp c))
      | gjson_String \<Rightarrow>
          (case ParseDateTime D (pp c) key (Str e) of Inl err \<Rightarrow> Epoch D | Inr t \<Rightarrow> t)
      | _ \<Rightarrow> Epoch D)"

definition GetArray ::
  "('f, 't) deps \<Rightarrow> 'f CsvMetric \<Rightarrow> string \<Rightarrow> model_type \<Rightarrow> halt + ('f, 't) val" where
  "GetArray D c key typ =
     (case (GetString c key False :: halt + ('f, 't) val) of
        Inl h \<Rightarrow> Inl h
      | Inr s \<Rightarrow>
          (let str = string_or_empty s
           in if str = [] \<or> str ! 0 \<noteq> CHR ''['' then makeArray typ
              else
                (let array = gjson_Array D (gjson_Parse D str)
                 in if length array = 0 then makeArray typ
                    else
                      (case typ of
                         model_Bool \<Rightarrow> Inr (VBools (range_append elem_Bool array []))
                       | model_Int \<Rightarrow> Inr (VInt64s (range_append (elem_Int D) array []))
                       | model_Float \<Rightarrow> Inr (VFloat64s (range_append (elem_Float D) array []))
                       | model_String \<Rightarrow> Inr (VStrings (range_append elem_String array []))
                       | model_DateTime \<Rightarrow>
                           Inr (VTimes (range_append (elem_DateTime D c key) array []))
                       | model_other n \<Rightarrow> Inl (Fatal_GetArray typ)))))"

subsection \<open>fastfloat.ParseInt64BestEffort\<close>

text \<open>
  \<open>GetInt\<close> hands the cell to \<open>ParseInt64BestEffort\<close> of the package
  \<open>github.com/valyala/fastjson/fastfloat\<close>. The package is a dependency, not a file of
  the repository; the function below follows the package's own source, statement by
  statement. It reads an optional \<open>-\<close> and then decimal digits with the index \<open>i\<close> into
  \<open>s\<close>; once \<open>i\<close> exceeds 18 it gives the whole string to \<open>strconv.ParseInt(s, 10, 64)\<close>
  (a parameter here) and returns 0 on its error; it returns 0 when it read no digit, and
  0 again when it stopped before the end of \<open>s\<close> (the source's comment there: unparsed
  tail left).

  A digit byte is between \<open>0\<close> and \<open>9\<close>; \<open>s[i] - '0'\<close> is only computed on a digit, where
  the byte subtraction does not wrap.
\<close>

definition is_digit :: "char \<Rightarrow> bool" where
  "is_digit ch = (48 \<le> (of_char ch :: nat) \<and> (of_char ch :: nat) \<le> 57)"

definition digit_of :: "char \<Rightarrow> nat" where
  "digit_of ch = of_char ch - 48"

text \<open>
  How a digit loop ends: by the fall back to the slow parser, or at index \<open>i\<close> with the
  accumulated number.
\<close>

datatype 'a scan = Fallback | Stop nat 'a

function scan_int64 :: "string \<Rightarrow> nat \<Rightarrow> int64 \<Rightarrow> int64 scan" where
  "scan_int64 s i d =
     (if i < length s then
        (if is_digit (s ! i) then
           (let d' = d * 10 + word_of_nat (digit_of (s ! i));
                i' = i + 1
            in if i' > 18 then Fallback else scan_int64 s i' d')
         else Stop i d)
      else Stop i d)"
  by pat_completeness auto
termination
  by (relation "measure (\<lambda>(s, i, d). length s - i)") auto

declare scan_int64.simps [simp del]

definition slow_ParseInt :: "(string \<Rightarrow> int64 \<times> error option) \<Rightarrow> string \<Rightarrow> int64" where
  "slow_ParseInt strconv_ParseInt s =
     (case strconv_ParseInt s of (dd, Some err) \<Rightarrow> 0 | (dd, None) \<Rightarrow> dd)"

definition ParseInt64BestEffort ::
  "(string \<Rightarrow> int64 \<times> error option) \<Rightarrow> string \<Rightarrow> int64" where
  "ParseInt64BestEffort strconv_ParseInt s =
     (if length s = 0 then 0
      else
        (let minus = (s ! 0 = CHR ''-'');
             i = (if minus then 1 else 0)
         in if minus \<and> i \<ge> length s then 0
            else
              (let j = i
               in case scan_int64 s i 0 of
                    Fallback \<Rightarrow> slow_ParseInt strconv_ParseInt s
                  | Stop i d \<Rightarrow>
                      if i \<le> j then 0
                      else if i < length s then 0
                      else if minus then - d else d)))"

text \<open>
  To state what the parser computes: the text of a decimal integer (an optional \<open>-\<close>,
  then digits and nothing else) and the integer it denotes.
\<close>

definition decimal :: "string \<Rightarrow> nat" where
  "decimal s = foldl (\<lambda>a ch. a * 10 + digit_of ch) 0 s"

definition int_literal :: "string \<Rightarrow> bool" where
  "int_literal s =
     (case s of
        [] \<Rightarrow> False
      | ch # r \<Rightarrow> if ch = CHR ''-'' then r \<noteq> [] \<and> list_all is_digit r else list_all is_digit s)"

definition int_value :: "string \<Rightarrow> int" where
  "int_value s =
     (case s of
        [] \<Rightarrow> 0
      | ch # r \<Rightarrow> if ch = CHR ''-'' then - int (decimal r) else int (decimal s))"

text \<open>
  The spec's words for \<open>GetInt\<close>: the integer parsed from the longest valid leading
  integer prefix of the cell, ignoring any trailing garbage, and 0 when there is no such
  prefix.
\<close>

definition spec_leading_int :: "string \<Rightarrow> int" where
  "spec_leading_int s =
     (case s of
        [] \<Rightarrow> 0
      | ch # r \<Rightarrow>
          if ch = CHR ''-'' then - int (decimal (takeWhile is_digit r))
          else int (decimal (takeWhile is_digit s)))"

subsection \<open>fastfloat.ParseBestEffort\<close>

text \<open>
  \<open>GetFloat\<close> hands the cell to \<open>ParseBestEffort\<close> of the same package, which is
  followed here from the package's source as well, block by block: the sign; the integer
  part; without integer digits, the words \<open>inf\<close>, \<open>infinity\<close> and \<open>nan\<close> after an
  optional \<open>+\<close>; the fraction after a \<open>.\<close>; the exponent after \<open>e\<close> or \<open>E\<close>; and
  \<open>return 0\<close> at the end, reached when bytes are left over. Each of the three digit
  loops can give the whole string to \<open>strconv.ParseFloat\<close> instead.

  The arithmetic of \<open>float64\<close>, the constants \<open>inf\<close> and \<open>nan\<close>, \<open>math.IsInf\<close>,
  \<open>math.Pow10\<close>, \<open>strconv.ParseFloat\<close> and the entries of the table \<open>float64pow10\<close>
  (the 17 exact powers from \<open>1e0\<close> to \<open>1e16\<close>) are parameters.
\<close>

record 'f float64_ops =
  f64_of_uint64 :: "64 word \<Rightarrow> 'f"
  f64_neg :: "'f \<Rightarrow> 'f"
  f64_quo :: "'f \<Rightarrow> 'f \<Rightarrow> 'f"
  f64_mul :: "'f \<Rightarrow> 'f \<Rightarrow> 'f"
  f64_zero :: "'f"
  f64_inf :: "'f"
  f64_nan :: "'f"
  f64_IsInf :: "'f \<Rightarrow> bool"
  f64_Pow10 :: "int \<Rightarrow> 'f"
  f64_pow10 :: "nat \<Rightarrow> 'f"
  f64_ParseFloat :: "string \<Rightarrow> 'f \<times> error option"


text \<open>
  The fall back: \<open>f, err := strconv.ParseFloat(s, 64)\<close>, then 0 on an error that did
  not come with an infinity, and \<open>f\<close> otherwise.
\<close>

definition slow_ParseFloat :: "'f float64_ops \<Rightarrow> string \<Rightarrow> 'f" where
  "slow_ParseFloat F s =
     (case f64_ParseFloat F s of
        (f, Some err) \<Rightarrow> if \<not> f64_IsInf F f then f64_zero F else f
      | (f, None) \<Rightarrow> f)"


text \<open>
  \<open>strings.HasPrefix\<close>, and \<open>strings.EqualFold\<close>, which compares under Unicode case
  folding. It is only called against three ASCII words, whose letters fold to nothing
  outside ASCII, so it is equality up to the case of the ASCII letters here.
\<close>

definition strings_HasPrefix :: "string \<Rightarrow> string \<Rightarrow> bool" where
  "strings_HasPrefix s prefix = (take (length prefix) s = prefix)"

definition lower_ascii :: "char \<Rightarrow> char" where
  "lower_ascii ch =
     (if 65 \<le> (of_char ch :: nat) \<and> (of_char ch :: nat) \<le> 90
      then char_of ((of_char ch :: nat) + 32) else ch)"

definition strings_EqualFold :: "string \<Rightarrow> string \<Rightarrow> bool" where
  "strings_EqualFold s t = (map lower_ascii s = map lower_ascii t)"


text \<open>
  The integer part is read by \<open>scan_int64\<close>: the loop is the one of
  \<open>ParseInt64BestEffort\<close>, on a \<open>uint64\<close>. The loop of the fraction goes on adding digits
  to the same number \<open>d\<close> and falls back once \<open>i - j\<close> reaches the length of
  \<open>float64pow10\<close>; the loop of the exponent falls back once the exponent exceeds 300
  (so the \<open>int16\<close> of the source cannot overflow, and is an \<open>int\<close> here).
\<close>

function scan_fraction :: "nat \<Rightarrow> string \<Rightarrow> nat \<Rightarrow> 64 word \<Rightarrow> 64 word scan" where
  "scan_fraction j s i d =
     (if i < length s then
        (if is_digit (s ! i) then
           (let d' = d * 10 + word_of_nat (digit_of (s ! i));
                i' = i + 1
            in if i' - j \<ge> 17 then Fallback else scan_fraction j s i' d')
         else Stop i d)
      else Stop i d)"
  by pat_completeness auto
termination
  by (relation "measure (\<lambda>(j, s, i, d). length s - i)") auto

declare scan_fraction.simps [simp del]

function scan_exponent :: "string \<Rightarrow> nat \<Rightarrow> int \<Rightarrow> int scan" where
  "scan_exponent s i exponent =
     (if i < length s then
        (if is_digit (s ! i) then
           (let exponent' = exponent * 10 + int (digit_of (s ! i));
                i' = i + 1
            in if exponent' > 300 then Fallback else scan_exponent s i' exponent')
         else Stop i exponent)
      else Stop i exponent)"
  by pat_completeness auto
termination
  by (relation "measure (\<lambda>(s, i, exponent). length s - i)") auto

declare scan_exponent.simps [simp del]


text \<open>
  The blocks, last first. Each is entered with \<open>i < len(s)\<close>.
\<close>

definition ParseBestEffort_exponent ::
  "'f float64_ops \<Rightarrow> string \<Rightarrow> bool \<Rightarrow> nat \<Rightarrow> 'f \<Rightarrow> 'f" where
  "ParseBestEffort_exponent F s minus' i f =
     (if s ! i = CHR ''e'' \<or> s ! i = CHR ''E'' then
        (let i = i + 1
         in if i \<ge> length s then f64_zero F
            else
              (let sign = (s ! i = CHR ''+'' \<or> s ! i = CHR ''-'');
                   expMinus = (sign \<and> s ! i = CHR ''-'');
                   i = (if sign then i + 1 else i)
               in if sign \<and> i \<ge> length s then f64_zero F
                  else
                    (let j = i
                     in case scan_exponent s i 0 of
                          Fallback \<Rightarrow> slow_ParseFloat F s
                        | Stop i exponent \<Rightarrow>
                            if i \<le> j then f64_zero F
                            else
                              (let exponent = (if expMinus then - exponent else exponent);
                                   f = f64_mul F f (f64_Pow10 F exponent)
                               in if i \<ge> length s
                                  then (if minus' then f64_neg F f else f)
                                  else f64_zero F))))
      else f64_zero F)"

definition ParseBestEffort_fraction ::
  "'f float64_ops \<Rightarrow> string \<Rightarrow> bool \<Rightarrow> nat \<Rightarrow> nat \<Rightarrow> 64 word \<Rightarrow> 'f" where
  "ParseBestEffort_fraction F s minus' j i d =
     (if s ! i = CHR ''.'' then
        (let i = i + 1
         in if i \<ge> length s then f64_zero F
            else
              (let k = i
               in case scan_fraction j s i d of
                    Fallback \<Rightarrow> slow_ParseFloat F s
                  | Stop i d \<Rightarrow>
                      if i < k then f64_zero F
                      else
                        (let f = f64_quo F (f64_of_uint64 F d) (f64_pow10 F (i - k))
                         in if i \<ge> length s
                            then (if minus' then f64_neg F f else f)
                            else ParseBestEffort_exponent F s minus' i f)))
      else ParseBestEffort_exponent F s minus' i (f64_of_uint64 F d))"

definition ParseBestEffort_special :: "'f float64_ops \<Rightarrow> string \<Rightarrow> bool \<Rightarrow> nat \<Rightarrow> 'f" where
  "ParseBestEffort_special F s minus' i =
     (let s' = drop i s;
          s' = (if strings_HasPrefix s' ''+'' then drop 1 s' else s')
      in if strings_EqualFold s' ''inf'' \<or> strings_EqualFold s' ''infinity''
         then (if minus' then f64_neg F (f64_inf F) else f64_inf F)
         else if strings_EqualFold s' ''nan'' then f64_nan F
         else f64_zero F)"

definition ParseBestEffort :: "'f float64_ops \<Rightarrow> string \<Rightarrow> 'f" where
  "ParseBestEffort F s =
     (if length s = 0 then f64_zero F
      else
        (let minus = (s ! 0 = CHR ''-'');
             i = (if minus then 1 else 0)
         in if minus \<and> i \<ge> length s then f64_zero F
            else
              (let j = i
               in case scan_int64 s i 0 of
                    Fallback \<Rightarrow> slow_ParseFloat F s
                  | Stop i d \<Rightarrow>
                      if i \<le> j then ParseBestEffort_special F s minus i
                      else if i \<ge> length s
                      then (let f = f64_of_uint64 F d in if minus then f64_neg F f else f)
                      else ParseBestEffort_fraction F s minus j i d)))"


text \<open>
  A byte a number can end with: a decimal digit, or the last letter of \<open>inf\<close>,
  \<open>infinity\<close> or \<open>nan\<close> in either case. The \<open>.\<close> is counted with them, although
  \<open>ParseBestEffort\<close> as written here returns 0 for a string that ends in it: the
  theorem on trailing bytes then says nothing about a final \<open>.\<close>.
\<close>

definition ends_number :: "char \<Rightarrow> bool" where
  "ends_number ch = (is_digit ch \<or> ch = CHR ''.'' \<or> ch \<in> set ''fFyYnN'')"


text \<open>
  To state what the parser computes on a number: the text of a decimal number is an
  optional \<open>-\<close>, the digits of the integer part, then possibly a \<open>.\<close> with the digits of
  the fraction, then possibly an exponent (\<open>e\<close> or \<open>E\<close>, an optional \<open>+\<close> or \<open>-\<close>,
  digits), and nothing else. The four parts are kept apart in \<open>decimal_text\<close>;
  \<open>text_of\<close> is the string they spell, \<open>well_formed\<close> says that there is an integer
  digit, that digits are digits and that an exponent has the shape above.
\<close>

datatype exponent_text = No_exponent | Exponent char string string

record decimal_text =
  negative :: bool
  int_digits :: string
  frac_digits :: string
  exponent :: exponent_text

fun exponent_string :: "exponent_text \<Rightarrow> string" where
  "exponent_string No_exponent = []"
| "exponent_string (Exponent mark sg ep) = mark # sg @ ep"

fun exponent_ok :: "exponent_text \<Rightarrow> bool" where
  "exponent_ok No_exponent = True"
| "exponent_ok (Exponent mark sg ep) =
     ((mark = CHR ''e'' \<or> mark = CHR ''E'') \<and> (sg = [] \<or> sg = ''+'' \<or> sg = ''-'')
      \<and> ep \<noteq> [] \<and> list_all is_digit ep)"

definition text_of :: "decimal_text \<Rightarrow> string" where
  "text_of n =
     (if negative n then ''-'' else []) @ int_digits n
     @ (if frac_digits n = [] then [] else CHR ''.'' # frac_digits n)
     @ exponent_string (exponent n)"

definition well_formed :: "decimal_text \<Rightarrow> bool" where
  "well_formed n =
     (int_digits n \<noteq> [] \<and> list_all is_digit (int_digits n) \<and> list_all is_digit (frac_digits n)
      \<and> exponent_ok (exponent n))"

text \<open>
  The number such a text denotes, in the arithmetic of \<open>float64\<close>: the digits of the
  integer part and of the fraction read as one decimal integer, divided by the power of
  ten of the number of fraction digits when there is a fraction, multiplied by the power
  of ten of the signed exponent when there is an exponent, and negated after a \<open>-\<close>.
\<close>

fun scaled :: "'f float64_ops \<Rightarrow> exponent_text \<Rightarrow> 'f \<Rightarrow> 'f" where
  "scaled F No_exponent f = f"
| "scaled F (Exponent mark sg ep) f =
     f64_mul F f (f64_Pow10 F (if sg = ''-'' then - int (decimal ep) else int (decimal ep)))"

definition float_of :: "'f float64_ops \<Rightarrow> decimal_text \<Rightarrow> 'f" where
  "float_of F n =
     (let m = (if frac_digits n = []
               then f64_of_uint64 F (word_of_nat (decimal (int_digits n)))
               else f64_quo F (f64_of_uint64 F (word_of_nat (decimal (int_digits n @ frac_digits n))))
                      (f64_pow10 F (length (frac_digits n))));
          v = scaled F (exponent n) m
      in if negative n then f64_neg F v else v)"

text \<open>
  The texts that none of the three digit loops gives to \<open>strconv.ParseFloat\<close>: at most
  18 bytes up to the end of the integer part, at most 16 bytes from the first integer
  digit to the last fraction digit when there is a fraction, and an exponent of at most
  300.
\<close>

fun exponent_small :: "exponent_text \<Rightarrow> bool" where
  "exponent_small No_exponent = True"
| "exponent_small (Exponent mark sg ep) = (decimal ep \<le> 300)"

definition fast :: "decimal_text \<Rightarrow> bool" where
  "fast n =
     ((if negative n then 1 else 0) + length (int_digits n) \<le> 18
      \<and> (frac_digits n = [] \<or> length (int_digits n) + 1 + length (frac_digits n) \<le> 16)
      \<and> exponent_small (exponent n))"


subsection \<open>The absence rule in the spec's words\<close>

text \<open>
  The spec calls a column absent when its name is unknown to the column index or its raw
  cell is the literal \<open>null\<close>. This predicate follows those words; the theorems compare
  it with what each getter does.
\<close>

definition spec_absent :: "'f CsvMetric \<Rightarrow> string \<Rightarrow> bool" where
  "spec_absent c key =
     (case csvFormat (pp c) key of
        None \<Rightarrow> True
      | Some idx \<Rightarrow> values' c ! nat idx = ''null'')"

text \<open>
  Every position the column index holds lies inside the record: then no getter panics.
\<close>

definition in_range :: "'f CsvMetric \<Rightarrow> string \<Rightarrow> bool" where
  "in_range c key =
     (case csvFormat (pp c) key of
        None \<Rightarrow> True
      | Some idx \<Rightarrow> 0 \<le> idx \<and> idx < int (length (values' c)))"

text \<open>
  The spec's words for the results and preconditions of \<open>GetArray\<close>: the empty array
  of the requested element type, an array of the requested element type, an element
  type inside the closed set, and a cell that holds a non-empty JSON array (it starts
  with \<open>[\<close> and \<open>gjson\<close> finds at least one element in it).
\<close>

definition empty_array_of :: "model_type \<Rightarrow> ('f, 't) val \<Rightarrow> bool" where
  "empty_array_of typ v =
     (case typ of
        model_Bool \<Rightarrow> v = VBools []
      | model_Int \<Rightarrow> v = VInt64s []
      | model_Float \<Rightarrow> v = VFloat64s []
      | model_String \<Rightarrow> v = VStrings []
      | model_DateTime \<Rightarrow> v = VTimes []
      | model_other n \<Rightarrow> False)"

definition typed_array :: "model_type \<Rightarrow> ('f, 't) val \<Rightarrow> bool" where
  "typed_array typ v =
     (case v of
        VBools xs \<Rightarrow> typ = model_Bool
      | VInt64s xs \<Rightarrow> typ = model_Int
      | VFloat64s xs \<Rightarrow> typ = model_Float
      | VStrings xs \<Rightarrow> typ = model_String
      | VTimes xs \<Rightarrow> typ = model_DateTime
      | _ \<Rightarrow> False)"

definition supported :: "model_type \<Rightarrow> bool" where
  "supported typ = (case typ of model_other n \<Rightarrow> False | _ \<Rightarrow> True)"

definition holds_nonempty_JSON_array ::
  "('f, 't) deps \<Rightarrow> 'f CsvMetric \<Rightarrow> string \<Rightarrow> bool" where
  "holds_nonempty_JSON_array D c key =
     (case csvFormat (pp c) key of
        None \<Rightarrow> False
      | Some idx \<Rightarrow>
          (let cell = values' c ! nat idx
           in cell \<noteq> [] \<and> cell ! 0 = CHR ''['' \<and> gjson_Array D (gjson_Parse D cell) \<noteq> []))"

subsection \<open>A concrete instance of the parameters\<close>

text \<open>
  One instance of the imported functions, fixed on a handful of inputs, on which the
  theorems are run: floats are rationals, instants are nanoseconds since the Unix epoch.
\<close>

definition example_ParseInt :: "string \<Rightarrow> int64 \<times> error option" where
  "example_ParseInt s =
     (if s = ''1234567890123456789'' then (1234567890123456789, None)
      else (0, Some (library_error ''invalid syntax'')))"

text \<open>
  The rationals have no infinity and no NaN: the instance of the float operations is one
  for finite numbers, with exact arithmetic.
\<close>

definition example_float64_ops :: "rat float64_ops" where
  "example_float64_ops =
     \<lparr>f64_of_uint64 = (\<lambda>d. of_nat (unat d)),
      f64_neg = (\<lambda>f. - f),
      f64_quo = (\<lambda>f g. f / g),
      f64_mul = (\<lambda>f g. f * g),
      f64_zero = 0,
      f64_inf = 0,
      f64_nan = 0,
      f64_IsInf = (\<lambda>f. False),
      f64_Pow10 = (\<lambda>n. if 0 \<le> n then 10 ^ nat n else 1 / 10 ^ nat (- n)),
      f64_pow10 = (\<lambda>n. 10 ^ n),
      f64_ParseFloat = (\<lambda>s.
        if s = ''1600000000'' then (1600000000, None)
        else if s = ''12345678901234567890'' then (12345678901234567890, None)
        else (0, Some (library_error ''invalid syntax'')))\<rparr>"

definition example_deps :: "(rat, int) deps" where
  "example_deps =
     \<lparr>csv_Read = (\<lambda>r bs.
        if bs = ''a,b''
        then (if 0 < FieldsPerRecord r \<and> FieldsPerRecord r \<noteq> 2
              then Inl (library_error ''wrong number of fields'')
              else Inr [''a'', ''b''])
        else Inl (library_error ''EOF'')),
      strconv_ParseFloat = (\<lambda>s.
        if s = ''1600000000'' then (1600000000, None)
        else (0, Some (library_error ''invalid syntax''))),
      fastfloat_ParseBestEffort = ParseBestEffort example_float64_ops,
      fastfloat_ParseInt64BestEffort = ParseInt64BestEffort example_ParseInt,
      gjson_Parse = (\<lambda>s. \<lparr>Type = gjson_JSON, Raw = s, Str = [], Num = 0\<rparr>),
      gjson_Array = (\<lambda>r.
        if Raw r = ''[1,2.5,true]''
        then [\<lparr>Type = gjson_Number, Raw = ''1'', Str = [], Num = 1\<rparr>,
              \<lparr>Type = gjson_Number, Raw = ''2.5'', Str = [], Num = 5 / 2\<rparr>,
              \<lparr>Type = gjson_True, Raw = ''true'', Str = [], Num = 0\<rparr>]
        else []),
      gjson_Int = (\<lambda>e. if Raw e = ''1'' then 1 else if Raw e = ''2.5'' then 2 else 0),
      float64_of_int64 = (\<lambda>v. of_int (sint v)),
      float64_eq = (\<lambda>x y. x = y),
      float64_zero = 0,
      time_Unix = (\<lambda>t. word_of_int (t div 1000000000)),
      ParseDateTime = (\<lambda>pool key s.
        if s = ''2020-09-13T12:26:40Z'' then Inr 1600000000000000000
        else Inl (library_error ''cannot parse'')),
      UnixFloat = (\<lambda>sec unit. \<lfloor>sec * unit * 1000000000\<rfloor>),
      Epoch = 0\<rparr>"

definition example_pool :: "rat Pool" where
  "example_pool =
     \<lparr>csvFormat = [''a'' \<mapsto> 0, ''b'' \<mapsto> 1], delimiter = '','', timeUnit = 1\<rparr>"

section \<open>Theorems\<close>

lemma index_in_range:
  "0 \<le> i \<Longrightarrow> i < int (length xs) \<Longrightarrow> index xs i = Inr (xs ! nat i)"
  by (simp add: index_def)

lemmas getter_defs = GetBool_def GetString_def GetInt_def GetFloat_def GetDateTime_def

lemma example_known:
  "csvFormat example_pool ''a'' = Some 0"
  "csvFormat example_pool ''b'' = Some 1"
  "csvFormat example_pool ''zz'' = None"
  by (simp_all add: example_pool_def)

lemma card_dom_example: "card (dom (csvFormat example_pool)) = 2"
  by (simp add: example_pool_def)

lemma example_delimiter: "delimiter example_pool = '',''"
  by (simp add: example_pool_def)

subsection \<open>Parse and the field count\<close>

text \<open>
  C4. Whenever the reader returns a record whose number of fields differs from the
  configured field count (fewer or more), \<open>Parse\<close> returns the error and no metric;
  whenever the reader itself reports an error, \<open>Parse\<close> returns that error, wrapped; and
  a metric that \<open>Parse\<close> returns holds exactly as many fields as the column index has
  names, namely the record the reader returned.
\<close>

theorem Parse_field_count:
  "(csv_Read (D :: ('f, 't) deps) (Parse_reader p) bs = Inr value
      \<and> length value \<noteq> card (dom (csvFormat (parser_pp p)))
      \<longrightarrow> Parse D p bs = Inl (errors_Errorf ''csv value doesn't match the format''))
   \<and> (csv_Read D (Parse_reader p) bs = Inl err \<longrightarrow> Parse D p bs = Inl (errors_Wrap err []))
   \<and> (Parse D p bs = Inr m
      \<longrightarrow> length (values' m) = card (dom (csvFormat (pp m))) \<and> pp m = parser_pp p
          \<and> csv_Read D (Parse_reader p) bs = Inr (values' m))"
  by (auto simp add: Parse_def split: sum.splits if_splits)

theorem Parse_field_count_witness:
  "csv_Read example_deps (Parse_reader \<lparr>parser_pp = example_pool\<lparr>csvFormat := Map.empty\<rparr>\<rparr>) ''a,b''
       = Inr [''a'', ''b'']
   \<and> length [''a'', ''b'']
       \<noteq> card (dom (csvFormat (parser_pp \<lparr>parser_pp = example_pool\<lparr>csvFormat := Map.empty\<rparr>\<rparr>)))
   \<and> Parse example_deps \<lparr>parser_pp = example_pool\<lparr>csvFormat := Map.empty\<rparr>\<rparr> ''a,b''
       = Inl (errors_Errorf ''csv value doesn't match the format'')
   \<and> csv_Read example_deps (Parse_reader \<lparr>parser_pp = example_pool\<rparr>) ''a''
       = Inl (library_error ''EOF'')
   \<and> Parse example_deps \<lparr>parser_pp = example_pool\<rparr> ''a''
       = Inl (errors_Wrap (library_error ''EOF'') [])
   \<and> Parse example_deps \<lparr>parser_pp = example_pool\<rparr> ''a,b''
       = Inr \<lparr>pp = example_pool, values' = [''a'', ''b'']\<rparr>
   \<and> length (values' \<lparr>pp = example_pool, values' = [''a'', ''b'']\<rparr>)
       = card (dom (csvFormat (pp \<lparr>pp = example_pool, values' = [''a'', ''b'']\<rparr>)))"
proof -
  have r1: "csv_Read example_deps
              (Parse_reader \<lparr>parser_pp = example_pool\<lparr>csvFormat := Map.empty\<rparr>\<rparr>) ''a,b''
            = Inr [''a'', ''b'']"
    by (simp add: example_deps_def Parse_reader_def csv_NewReader_def example_delimiter Let_def)
  have n1: "length [''a'', ''b'']
       \<noteq> card (dom (csvFormat (parser_pp \<lparr>parser_pp = example_pool\<lparr>csvFormat := Map.empty\<rparr>\<rparr>)))"
    by simp
  have p1: "Parse example_deps \<lparr>parser_pp = example_pool\<lparr>csvFormat := Map.empty\<rparr>\<rparr> ''a,b''
       = Inl (errors_Errorf ''csv value doesn't match the format'')"
    using Parse_field_count
            [of example_deps "\<lparr>parser_pp = example_pool\<lparr>csvFormat := Map.empty\<rparr>\<rparr>" "''a,b''"
                "[''a'', ''b'']"]
          r1 n1
    by blast
  have r2: "csv_Read example_deps (Parse_reader \<lparr>parser_pp = example_pool\<rparr>) ''a''
       = Inl (library_error ''EOF'')"
    by (simp add: example_deps_def)
  have p2: "Parse example_deps \<lparr>parser_pp = example_pool\<rparr> ''a''
       = Inl (errors_Wrap (library_error ''EOF'') [])"
    using Parse_field_count
            [of example_deps "\<lparr>parser_pp = example_pool\<rparr>" "''a''" "[]" "library_error ''EOF''"]
          r2
    by blast
  have p3: "Parse example_deps \<lparr>parser_pp = example_pool\<rparr> ''a,b''
       = Inr \<lparr>pp = example_pool, values' = [''a'', ''b'']\<rparr>"
    by (simp add: Parse_def Parse_reader_def csv_NewReader_def card_dom_example example_deps_def
        example_delimiter Let_def)
  have l3: "length (values' \<lparr>pp = example_pool, values' = [''a'', ''b'']\<rparr>)
       = card (dom (csvFormat (pp \<lparr>pp = example_pool, values' = [''a'', ''b'']\<rparr>)))"
    using Parse_field_count
            [of example_deps "\<lparr>parser_pp = example_pool\<rparr>" "''a,b''" "[]" "library_error []"
                "\<lparr>pp = example_pool, values' = [''a'', ''b'']\<rparr>"]
          p3
    by blast
  show ?thesis
    by (intro conjI r1 n1 p1 r2 p2 p3 l3)
qed

subsection \<open>The absence rule\<close>

text \<open>
  C10. On a known column whose cell is the empty string, \<open>GetBool\<close> returns \<open>nil\<close> when
  \<open>nullable\<close> is true and \<open>false\<close> when it is not: it does not apply its coercion
  (which would give the boolean \<open>false\<close> under either flag). The other scalar getters
  do apply theirs to the empty string: none of them returns \<open>nil\<close> there.
\<close>

theorem GetBool_empty_string:
  assumes "csvFormat (pp c) key = Some idx" "0 \<le> idx" "idx < int (length (values' c))"
      and "values' c ! nat idx = []"
  shows "GetBool c key nullable = (Inr (if nullable then VNil else VBool False) :: halt + ('f, 't) val)
       \<and> GetBool c key True \<noteq> (Inr (VBool (values' c ! nat idx = ''true'')) :: halt + ('f, 't) val)
       \<and> GetString c key nullable = (Inr (VString []) :: halt + ('f, 't) val)
       \<and> GetInt (D :: ('f, 't) deps) c key nullable = Inr (VInt64 (fastfloat_ParseInt64BestEffort D []))
       \<and> GetFloat D c key nullable = Inr (VFloat64 (fastfloat_ParseBestEffort D []))
       \<and> (\<exists>t. GetDateTime D c key nullable = Inr (VTime t)
              \<and> GetElasticDateTime D c key nullable = Inr (VInt64 (time_Unix D t)))"
  using assms
  by (auto simp add: getter_defs GetElasticDateTime_def index_def
      split: prod.splits option.splits sum.splits)

theorem GetBool_empty_string_witness:
  "csvFormat (pp \<lparr>pp = example_pool, values' = [''x'', []]\<rparr>) ''b'' = Some 1
   \<and> (0::int) \<le> 1
   \<and> (1::int) < int (length (values' \<lparr>pp = example_pool, values' = [''x'', []]\<rparr>))
   \<and> values' \<lparr>pp = example_pool, values' = [''x'', []]\<rparr> ! nat 1 = []
   \<and> GetBool \<lparr>pp = example_pool, values' = [''x'', []]\<rparr> ''b'' True
       = (Inr VNil :: halt + (rat, int) val)
   \<and> GetBool \<lparr>pp = example_pool, values' = [''x'', []]\<rparr> ''b'' False
       = (Inr (VBool False) :: halt + (rat, int) val)
   \<and> GetString \<lparr>pp = example_pool, values' = [''x'', []]\<rparr> ''b'' True
       = (Inr (VString []) :: halt + (rat, int) val)"
  using GetBool_empty_string [of "\<lparr>pp = example_pool, values' = [''x'', []]\<rparr>" "''b''" 1 True
          example_deps]
        GetBool_empty_string [of "\<lparr>pp = example_pool, values' = [''x'', []]\<rparr>" "''b''" 1 False
          example_deps]
  by (simp add: example_known)

text \<open>
  C3, as the spec states it, fails for \<open>GetBool\<close>: on a known column whose cell is the
  empty string, which the rule does not call absent, \<open>GetBool\<close> with \<open>nullable\<close>
  returns \<open>nil\<close>.
\<close>

theorem absence_rule_GetBool_counterexample:
  "in_range \<lparr>pp = example_pool, values' = [''x'', []]\<rparr> ''b''
   \<and> values' \<lparr>pp = example_pool, values' = [''x'', []]\<rparr> ! 1 = []
   \<and> \<not> spec_absent \<lparr>pp = example_pool, values' = [''x'', []]\<rparr> ''b''
   \<and> GetBool \<lparr>pp = example_pool, values' = [''x'', []]\<rparr> ''b'' True
       = (Inr VNil :: halt + (rat, int) val)
   \<and> (GetBool \<lparr>pp = example_pool, values' = [''x'', []]\<rparr> ''b'' True
         = (Inr VNil :: halt + (rat, int) val))
       \<noteq> spec_absent \<lparr>pp = example_pool, values' = [''x'', []]\<rparr> ''b''"
  by (simp add: example_known in_range_def spec_absent_def GetBool_def index_def)

text \<open>
  C3, amended. A getter treats a column as absent when, asked with \<open>nullable\<close>, it
  returns \<open>nil\<close>. \<open>GetString\<close>, \<open>GetInt\<close>, \<open>GetFloat\<close> and \<open>GetDateTime\<close> do so exactly
  when the name is unknown to the column index or the cell is the literal \<open>null\<close>;
  \<open>GetBool\<close> does so exactly when the name is unknown or the cell is \<open>null\<close> or the
  empty string. On an absent column and without \<open>nullable\<close>, each getter returns the zero
  value of its type.
\<close>

theorem absence_rule:
  assumes "in_range c key"
  shows "((GetString c key True = (Inr VNil :: halt + ('f, 't) val)) = spec_absent c key)
       \<and> ((GetInt (D :: ('f, 't) deps) c key True = Inr VNil) = spec_absent c key)
       \<and> ((GetFloat D c key True = Inr VNil) = spec_absent c key)
       \<and> ((GetDateTime D c key True = Inr VNil) = spec_absent c key)
       \<and> ((GetBool c key True = (Inr VNil :: halt + ('f, 't) val)) =
            (spec_absent c key
             \<or> (\<exists>idx. csvFormat (pp c) key = Some idx \<and> values' c ! nat idx = [])))
       \<and> (spec_absent c key \<longrightarrow>
            GetString c key False = (Inr (VString []) :: halt + ('f, 't) val)
          \<and> GetInt D c key False = Inr (VInt64 0)
          \<and> GetFloat D c key False = Inr (VFloat64 (float64_zero D))
          \<and> GetDateTime D c key False = Inr (VTime (Epoch D))
          \<and> GetBool c key False = (Inr (VBool False) :: halt + ('f, 't) val))"
  using assms
  by (auto simp add: getter_defs index_def in_range_def spec_absent_def
      split: prod.splits option.splits sum.splits)

theorem absence_rule_witness:
  "in_range \<lparr>pp = example_pool, values' = [''null'', ''7'']\<rparr> ''a''
   \<and> spec_absent \<lparr>pp = example_pool, values' = [''null'', ''7'']\<rparr> ''a''
   \<and> GetString \<lparr>pp = example_pool, values' = [''null'', ''7'']\<rparr> ''a'' True
       = (Inr VNil :: halt + (rat, int) val)
   \<and> GetInt example_deps \<lparr>pp = example_pool, values' = [''null'', ''7'']\<rparr> ''a'' False
       = Inr (VInt64 0)
   \<and> GetDateTime example_deps \<lparr>pp = example_pool, values' = [''null'', ''7'']\<rparr> ''a'' False
       = Inr (VTime 0)"
  using absence_rule [of "\<lparr>pp = example_pool, values' = [''null'', ''7'']\<rparr>" "''a''" example_deps]
  by (simp add: example_known in_range_def spec_absent_def example_deps_def)

subsection \<open>Date and time\<close>

lemma GetDateTime_known:
  assumes "csvFormat (pp c) key = Some idx" "0 \<le> idx" "idx < int (length (values' c))"
      and "values' c ! nat idx \<noteq> ''null''"
  shows "GetDateTime D c key nullable =
           (case strconv_ParseFloat D (values' c ! nat idx) of
              (dd, Some err) \<Rightarrow>
                (case ParseDateTime D (pp c) key (values' c ! nat idx) of
                   Inl err' \<Rightarrow> Inr (VTime (Epoch D))
                 | Inr t \<Rightarrow> Inr (VTime t))
            | (dd, None) \<Rightarrow> Inr (VTime (UnixFloat D dd (timeUnit (pp c)))))"
  using assms by (simp add: GetDateTime_def index_def)

lemma GetDateTime_cases:
  "(\<exists>h. GetDateTime D c key nullable = Inl h) \<or> GetDateTime D c key nullable = Inr VNil
   \<or> (\<exists>t. GetDateTime D c key nullable = Inr (VTime t))"
  by (auto simp add: GetDateTime_def split: prod.splits option.splits sum.splits)

text \<open>
  C5. On a known column whose cell \<open>s\<close> is not \<open>null\<close>, \<open>GetDateTime\<close> first runs
  \<open>strconv.ParseFloat\<close> on the whole cell. When that returns no error, the result is
  \<open>UnixFloat\<close> of the number and the configured time unit, and it is the same whatever
  the date-format resolver is: the resolver is not consulted. When it returns an error,
  the result is the resolver's instant, or \<open>Epoch\<close> when the resolver fails too. In every
  case the result is an instant, never a halt and never \<open>nil\<close>.
\<close>

theorem GetDateTime_two_branches:
  assumes "csvFormat (pp c) key = Some idx" "0 \<le> idx" "idx < int (length (values' c))"
      and "values' c ! nat idx = s" "s \<noteq> ''null''"
  shows "(strconv_ParseFloat D s = (dd, None) \<longrightarrow>
            GetDateTime D c key nullable = Inr (VTime (UnixFloat D dd (timeUnit (pp c))))
          \<and> (\<forall>resolver. GetDateTime (D\<lparr>ParseDateTime := resolver\<rparr>) c key nullable
                          = GetDateTime D c key nullable))
       \<and> (strconv_ParseFloat D s = (dd, Some err) \<longrightarrow>
            GetDateTime D c key nullable =
              (case ParseDateTime D (pp c) key s of
                 Inr t \<Rightarrow> Inr (VTime t)
               | Inl err' \<Rightarrow> Inr (VTime (Epoch D))))
       \<and> (\<exists>t. GetDateTime D c key nullable = Inr (VTime t))"
  using assms
  by (auto simp add: GetDateTime_known split: prod.splits option.splits sum.splits)

theorem GetDateTime_two_branches_witness:
  "csvFormat (pp \<lparr>pp = example_pool, values' = [''1600000000'', ''yesterday'']\<rparr>) ''a'' = Some 0
   \<and> [''1600000000'', ''yesterday''] ! nat 0 = ''1600000000'' \<and> ''1600000000'' \<noteq> ''null''
   \<and> strconv_ParseFloat example_deps ''1600000000'' = (1600000000, None)
   \<and> GetDateTime example_deps \<lparr>pp = example_pool, values' = [''1600000000'', ''yesterday'']\<rparr>
        ''a'' False
        = Inr (VTime 1600000000000000000)
   \<and> csvFormat (pp \<lparr>pp = example_pool, values' = [''1600000000'', ''yesterday'']\<rparr>) ''b'' = Some 1
   \<and> [''1600000000'', ''yesterday''] ! nat 1 = ''yesterday'' \<and> ''yesterday'' \<noteq> ''null''
   \<and> strconv_ParseFloat example_deps ''yesterday'' = (0, Some (library_error ''invalid syntax''))
   \<and> GetDateTime example_deps \<lparr>pp = example_pool, values' = [''1600000000'', ''yesterday'']\<rparr>
        ''b'' False
        = Inr (VTime 0)"
  using GetDateTime_two_branches [of "\<lparr>pp = example_pool, values' = [''1600000000'', ''yesterday'']\<rparr>"
          "''a''" 0 "''1600000000''" example_deps 1600000000 False]
        GetDateTime_two_branches [of "\<lparr>pp = example_pool, values' = [''1600000000'', ''yesterday'']\<rparr>"
          "''b''" 1 "''yesterday''" example_deps 0 False "library_error ''invalid syntax''"]
  by (simp add: example_known) (simp add: example_deps_def example_pool_def)

text \<open>
  C8. \<open>GetElasticDateTime\<close> is \<open>GetDateTime\<close> followed by \<open>Unix()\<close>: an instant
  becomes its count of seconds since the Unix epoch, \<open>nil\<close> stays \<open>nil\<close>, a panic stays
  that panic, and the type assertion itself never fails. So on an absent column it
  returns \<open>nil\<close> under \<open>nullable\<close>, with no number put in its place, and otherwise the
  seconds of \<open>Epoch\<close>, which are 0 when \<open>Epoch\<close> is the Unix epoch.
\<close>

theorem GetElasticDateTime_seconds:
  "(GetDateTime D c key nullable = Inr (VTime t) \<longrightarrow>
      GetElasticDateTime D c key nullable = Inr (VInt64 (time_Unix D t)))
   \<and> (GetDateTime D c key nullable = Inr VNil \<longrightarrow>
      GetElasticDateTime D c key nullable = Inr VNil)
   \<and> (GetDateTime D c key nullable = Inl h \<longrightarrow>
      GetElasticDateTime D c key nullable = Inl h)
   \<and> GetElasticDateTime D c key nullable \<noteq> Inl Panic_type_assertion
   \<and> (in_range c key \<and> spec_absent c key \<longrightarrow>
        GetElasticDateTime D c key True = Inr VNil
      \<and> GetElasticDateTime D c key False = Inr (VInt64 (time_Unix D (Epoch D)))
      \<and> (time_Unix D (Epoch D) = 0 \<longrightarrow> GetElasticDateTime D c key False = Inr (VInt64 0)))"
  using GetDateTime_cases [of D c key nullable]
  by (auto simp add: GetElasticDateTime_def GetDateTime_def index_def in_range_def spec_absent_def
      split: prod.splits option.splits sum.splits)

theorem GetElasticDateTime_seconds_witness:
  "GetDateTime example_deps \<lparr>pp = example_pool, values' = [''1600000000'', ''null'']\<rparr> ''a'' False
      = Inr (VTime 1600000000000000000)
   \<and> GetElasticDateTime example_deps \<lparr>pp = example_pool, values' = [''1600000000'', ''null'']\<rparr>
        ''a'' False
      = Inr (VInt64 1600000000)
   \<and> in_range \<lparr>pp = example_pool, values' = [''1600000000'', ''null'']\<rparr> ''b''
   \<and> spec_absent \<lparr>pp = example_pool, values' = [''1600000000'', ''null'']\<rparr> ''b''
   \<and> time_Unix example_deps (Epoch example_deps) = 0
   \<and> GetElasticDateTime example_deps \<lparr>pp = example_pool, values' = [''1600000000'', ''null'']\<rparr>
        ''b'' True
      = Inr VNil
   \<and> GetElasticDateTime example_deps \<lparr>pp = example_pool, values' = [''1600000000'', ''null'']\<rparr>
        ''b'' False
      = Inr (VInt64 0)"
  using GetElasticDateTime_seconds [of example_deps
          "\<lparr>pp = example_pool, values' = [''1600000000'', ''null'']\<rparr>" "''a''" False
          1600000000000000000]
        GetElasticDateTime_seconds [of example_deps
          "\<lparr>pp = example_pool, values' = [''1600000000'', ''null'']\<rparr>" "''b''" False]
  by (simp add: example_known in_range_def spec_absent_def GetDateTime_def index_def)
     (simp add: example_deps_def example_pool_def)

subsection \<open>Arrays\<close>

lemma range_append_map: "range_append body array results = results @ map body array"
  by (induction array arbitrary: results) simp_all

lemma GetString_False_known:
  assumes "csvFormat (pp c) key = Some idx" "0 \<le> idx" "idx < int (length (values' c))"
  shows "GetString c key False =
           Inr (VString (if values' c ! nat idx = ''null'' then [] else values' c ! nat idx))"
  using assms by (simp add: GetString_def index_def)

lemma GetString_False_in_range:
  assumes "in_range c key"
  shows "\<exists>str. GetString c key False = Inr (VString str)"
  using assms by (auto simp add: GetString_def index_def in_range_def split: option.splits)

lemma GetArray_of_string:
  assumes "(GetString c key False :: halt + ('f, 't) val) = Inr (VString str)"
  shows "GetArray (D :: ('f, 't) deps) c key typ =
     (if str = [] \<or> str ! 0 \<noteq> CHR ''['' then makeArray typ
      else if gjson_Array D (gjson_Parse D str) = [] then makeArray typ
      else (case typ of
              model_Bool \<Rightarrow> Inr (VBools (map elem_Bool (gjson_Array D (gjson_Parse D str))))
            | model_Int \<Rightarrow> Inr (VInt64s (map (elem_Int D) (gjson_Array D (gjson_Parse D str))))
            | model_Float \<Rightarrow>
                Inr (VFloat64s (map (elem_Float D) (gjson_Array D (gjson_Parse D str))))
            | model_String \<Rightarrow>
                Inr (VStrings (map elem_String (gjson_Array D (gjson_Parse D str))))
            | model_DateTime \<Rightarrow>
                Inr (VTimes (map (elem_DateTime D c key) (gjson_Array D (gjson_Parse D str))))
            | model_other n \<Rightarrow> Inl (Fatal_GetArray typ)))"
  using assms
  by (simp add: GetArray_def string_or_empty_def range_append_map Let_def
      split: model_type.splits)

lemma makeArray_supported:
  "supported typ \<Longrightarrow>
     \<exists>v. (makeArray typ :: halt + ('f, 't) val) = Inr v \<and> empty_array_of typ v \<and> typed_array typ v"
  by (cases "typ") (simp_all add: makeArray_def empty_array_of_def typed_array_def supported_def)

lemma makeArray_not_Fatal_GetArray: "makeArray typ \<noteq> Inl (Fatal_GetArray t)"
  by (cases "typ") (simp_all add: makeArray_def)

lemma GetArray_supported_typed:
  assumes "in_range c key" "supported typ"
  shows "\<exists>v. GetArray D c key typ = Inr v \<and> typed_array typ v"
proof -
  obtain str where s: "(GetString c key False :: halt + ('a, 'b) val) = Inr (VString str)"
    using GetString_False_in_range [OF assms(1)] by blast
  show ?thesis
    using makeArray_supported [OF assms(2), where ?'f = "'a" and ?'t = "'b"] assms(2)
    unfolding GetArray_of_string [OF s]
    by (cases "typ") (auto simp add: typed_array_def supported_def)
qed

text \<open>
  C6. On a known column whose cell starts with \<open>[\<close> and in which \<open>gjson\<close> finds the
  elements \<open>array\<close>, at least one, \<open>GetArray\<close> with element type \<open>Int\<close> returns one
  \<open>int64\<close> per element, in order: 1 for the JSON \<open>true\<close>; for a JSON number its
  integer value \<open>e.Int()\<close> when that integer, converted back to \<open>float64\<close>, equals the
  number, and 0 when it does not; 0 for every other element.
\<close>

theorem GetArray_Int64_elements:
  assumes "csvFormat (pp c) key = Some idx" "0 \<le> idx" "idx < int (length (values' c))"
      and "values' c ! nat idx = cell" "cell \<noteq> []" "cell ! 0 = CHR ''[''"
      and "gjson_Array D (gjson_Parse D cell) = array" "array \<noteq> []"
  shows "GetArray D c key model_Int =
           Inr (VInt64s (map (\<lambda>e.
             if Type e = gjson_True then 1
             else if Type e = gjson_Number
                     \<and> float64_eq D (float64_of_int64 D (gjson_Int D e)) (Num e)
                  then gjson_Int D e
                  else 0) array))"
proof -
  have "cell \<noteq> ''null''" using assms(6) by auto
  then have "(GetString c key False :: halt + ('a, 'b) val) = Inr (VString cell)"
    using assms(1-4) by (simp add: GetString_False_known)
  then have "GetArray D c key model_Int = Inr (VInt64s (map (elem_Int D) array))"
    using assms(5-8) by (simp add: GetArray_of_string)
  moreover have "elem_Int D = (\<lambda>e.
             if Type e = gjson_True then 1
             else if Type e = gjson_Number
                     \<and> float64_eq D (float64_of_int64 D (gjson_Int D e)) (Num e)
                  then gjson_Int D e
                  else 0)"
    by (rule ext) (simp add: elem_Int_def Let_def split: gjson_Type.splits)
  ultimately show ?thesis by simp
qed

theorem GetArray_Int64_elements_witness:
  "csvFormat (pp \<lparr>pp = example_pool, values' = [''[1,2.5,true]'', ''x'']\<rparr>) ''a'' = Some 0
   \<and> values' \<lparr>pp = example_pool, values' = [''[1,2.5,true]'', ''x'']\<rparr> ! nat 0 = ''[1,2.5,true]''
   \<and> ''[1,2.5,true]'' ! 0 = CHR ''[''
   \<and> length (gjson_Array example_deps (gjson_Parse example_deps ''[1,2.5,true]'')) = 3
   \<and> GetArray example_deps \<lparr>pp = example_pool, values' = [''[1,2.5,true]'', ''x'']\<rparr> ''a''
        model_Int
        = Inr (VInt64s [1, 0, 1])"
  using GetArray_Int64_elements
          [of "\<lparr>pp = example_pool, values' = [''[1,2.5,true]'', ''x'']\<rparr>" "''a''" 0
              "''[1,2.5,true]''" example_deps
              "gjson_Array example_deps (gjson_Parse example_deps ''[1,2.5,true]'')"]
  by (simp add: example_known) (simp add: example_deps_def)

text \<open>
  C7. For a supported element type, \<open>GetArray\<close> returns the empty array of that type
  whenever the string that \<open>GetString\<close> gives without \<open>nullable\<close> is empty, does not
  start with \<open>[\<close>, or has no element for \<open>gjson\<close>; an absent column (unknown name, or
  the cell \<open>null\<close>) is such a case. \<open>GetArray\<close> takes no \<open>nullable\<close> flag, and its
  result is never \<open>nil\<close>.
\<close>

theorem GetArray_empty_default:
  assumes "in_range c key" "supported typ"
  shows "((GetString c key False :: halt + ('f, 't) val) = Inr (VString str)
           \<and> (str = [] \<or> hd str \<noteq> CHR ''['' \<or> gjson_Array D (gjson_Parse D str) = [])
          \<longrightarrow> (\<exists>v. GetArray (D :: ('f, 't) deps) c key typ = Inr v \<and> empty_array_of typ v))
       \<and> (spec_absent c key \<longrightarrow> (\<exists>v. GetArray D c key typ = Inr v \<and> empty_array_of typ v))
       \<and> GetArray D c key typ \<noteq> Inr VNil"
proof (intro conjI impI)
  assume a: "(GetString c key False :: halt + ('f, 't) val) = Inr (VString str)
           \<and> (str = [] \<or> hd str \<noteq> CHR ''['' \<or> gjson_Array D (gjson_Parse D str) = [])"
  then have "GetArray D c key typ = makeArray typ"
    by (auto simp add: GetArray_of_string hd_conv_nth)
  then show "\<exists>v. GetArray D c key typ = Inr v \<and> empty_array_of typ v"
    using makeArray_supported [OF assms(2), where ?'f = "'f" and ?'t = "'t"] by auto
next
  assume "spec_absent c key"
  then have "(GetString c key False :: halt + ('f, 't) val) = Inr (VString [])"
    using assms(1)
    by (auto simp add: GetString_def index_def spec_absent_def in_range_def split: option.splits)
  then have "GetArray D c key typ = makeArray typ"
    by (simp add: GetArray_of_string)
  then show "\<exists>v. GetArray D c key typ = Inr v \<and> empty_array_of typ v"
    using makeArray_supported [OF assms(2), where ?'f = "'f" and ?'t = "'t"] by auto
next
  show "GetArray D c key typ \<noteq> Inr VNil"
    using GetArray_supported_typed [OF assms, of D] by (auto simp add: typed_array_def)
qed

theorem GetArray_empty_default_witness:
  "in_range \<lparr>pp = example_pool, values' = [''abc'', ''null'']\<rparr> ''a''
   \<and> supported model_Int
   \<and> GetString \<lparr>pp = example_pool, values' = [''abc'', ''null'']\<rparr> ''a'' False
        = (Inr (VString ''abc'') :: halt + (rat, int) val)
   \<and> hd ''abc'' \<noteq> CHR ''[''
   \<and> GetArray example_deps \<lparr>pp = example_pool, values' = [''abc'', ''null'']\<rparr> ''a'' model_Int
        = Inr (VInt64s [])
   \<and> in_range \<lparr>pp = example_pool, values' = [''abc'', ''null'']\<rparr> ''b''
   \<and> supported model_String
   \<and> spec_absent \<lparr>pp = example_pool, values' = [''abc'', ''null'']\<rparr> ''b''
   \<and> GetArray example_deps \<lparr>pp = example_pool, values' = [''abc'', ''null'']\<rparr> ''b'' model_String
        = Inr (VStrings [])"
  using GetArray_empty_default
          [of "\<lparr>pp = example_pool, values' = [''abc'', ''null'']\<rparr>" "''a''" model_Int "''abc''"
              example_deps]
        GetArray_empty_default
          [of "\<lparr>pp = example_pool, values' = [''abc'', ''null'']\<rparr>" "''b''" model_String "[]"
              example_deps]
  by (simp add: example_known in_range_def spec_absent_def supported_def empty_array_of_def
        GetString_def index_def)

text \<open>
  C9. With every position of the column index inside the record, \<open>GetArray\<close> ends in
  its own \<open>Logger.Fatal\<close> exactly when the element type is none of the five and the cell
  holds a non-empty JSON array. For each of the five element types it returns an array of
  that type, whatever the cell contains: no error and no halt.
\<close>

theorem GetArray_fatal_branch:
  assumes "in_range c key"
  shows "((\<exists>t. GetArray D c key typ = Inl (Fatal_GetArray t))
            = (\<not> supported typ \<and> holds_nonempty_JSON_array D c key))
       \<and> (supported typ \<longrightarrow> (\<exists>v. GetArray D c key typ = Inr v \<and> typed_array typ v))"
proof (intro conjI impI)
  show "(\<exists>t. GetArray D c key typ = Inl (Fatal_GetArray t))
            = (\<not> supported typ \<and> holds_nonempty_JSON_array D c key)"
  proof (cases "csvFormat (pp c) key")
    case None
    then have "(GetString c key False :: halt + ('a, 'b) val) = Inr (VString [])"
      by (simp add: GetString_def)
    then have "GetArray D c key typ = makeArray typ"
      by (simp add: GetArray_of_string)
    then show ?thesis
      using None by (simp add: makeArray_not_Fatal_GetArray holds_nonempty_JSON_array_def)
  next
    case (Some idx)
    then have r: "0 \<le> idx" "idx < int (length (values' c))"
      using assms by (simp_all add: in_range_def)
    have nn: "values' c ! nat idx = ''null'' \<Longrightarrow> values' c ! nat idx ! 0 \<noteq> CHR ''[''"
      by simp
    show ?thesis
      unfolding GetArray_of_string [OF GetString_False_known [OF Some r]]
      using Some nn
      by (cases "typ")
         (auto simp add: makeArray_not_Fatal_GetArray holds_nonempty_JSON_array_def supported_def
            Let_def)
  qed
next
  assume "supported typ"
  then show "\<exists>v. GetArray D c key typ = Inr v \<and> typed_array typ v"
    using GetArray_supported_typed [OF assms] by blast
qed

theorem GetArray_fatal_branch_witness:
  "in_range \<lparr>pp = example_pool, values' = [''[1,2.5,true]'', ''[oops'']\<rparr> ''a''
   \<and> \<not> supported (model_other 7)
   \<and> holds_nonempty_JSON_array example_deps
        \<lparr>pp = example_pool, values' = [''[1,2.5,true]'', ''[oops'']\<rparr> ''a''
   \<and> GetArray example_deps \<lparr>pp = example_pool, values' = [''[1,2.5,true]'', ''[oops'']\<rparr> ''a''
        (model_other 7)
        = Inl (Fatal_GetArray (model_other 7))
   \<and> supported model_Bool
   \<and> GetArray example_deps \<lparr>pp = example_pool, values' = [''[1,2.5,true]'', ''[oops'']\<rparr> ''a''
        model_Bool
        = Inr (VBools [False, False, True])
   \<and> in_range \<lparr>pp = example_pool, values' = [''[1,2.5,true]'', ''[oops'']\<rparr> ''b''
   \<and> GetArray example_deps \<lparr>pp = example_pool, values' = [''[1,2.5,true]'', ''[oops'']\<rparr> ''b''
        model_Bool
        = Inr (VBools [])"
  using GetArray_fatal_branch
          [of "\<lparr>pp = example_pool, values' = [''[1,2.5,true]'', ''[oops'']\<rparr>" "''a''"
              example_deps "model_other 7"]
        GetArray_fatal_branch
          [of "\<lparr>pp = example_pool, values' = [''[1,2.5,true]'', ''[oops'']\<rparr>" "''a''"
              example_deps model_Bool]
        GetArray_fatal_branch
          [of "\<lparr>pp = example_pool, values' = [''[1,2.5,true]'', ''[oops'']\<rparr>" "''b''"
              example_deps model_Bool]
  apply (simp add: example_known in_range_def supported_def holds_nonempty_JSON_array_def
        GetArray_def GetString_def index_def string_or_empty_def)
  apply (simp add: example_deps_def makeArray_def elem_Bool_def)
  done

subsection \<open>GetInt and the integer parser\<close>

text \<open>
  The digit loop reads the longest run of digits from \<open>i\<close>, unless the run carries the
  index past 18.
\<close>

lemma scan_int64_run:
  "scan_int64 s i d =
     (let run = takeWhile is_digit (drop i s)
      in if run \<noteq> [] \<and> 18 < i + length run then Fallback
         else Stop (i + length run)
                (foldl (\<lambda>a ch. a * 10 + word_of_nat (digit_of ch)) d run))"
proof (induction s i d rule: scan_int64.induct)
  case (1 s i d)
  show ?case
  proof (cases "i < length s")
    case False
    then show ?thesis by (subst scan_int64.simps) simp
  next
    case True
    then have dr: "drop i s = s ! i # drop (Suc i) s"
      by (simp add: Cons_nth_drop_Suc)
    show ?thesis
    proof (cases "is_digit (s ! i)")
      case False
      then show ?thesis using True dr by (subst scan_int64.simps) simp
    next
      case d: True
      show ?thesis
      proof (cases "18 < i + 1")
        case True
        then show ?thesis using \<open>i < length s\<close> d dr
          by (subst scan_int64.simps) (simp add: Let_def)
      next
        case False
        have "scan_int64 s (i + 1) (d * 10 + word_of_nat (digit_of (s ! i))) =
          (let run = takeWhile is_digit (drop (i + 1) s)
           in if run \<noteq> [] \<and> 18 < i + 1 + length run then Fallback
              else Stop (i + 1 + length run)
                     (foldl (\<lambda>a ch. a * 10 + word_of_nat (digit_of ch))
                        (d * 10 + word_of_nat (digit_of (s ! i))) run))"
          using "1.IH" [OF \<open>i < length s\<close> d refl refl False] .
        then have ih: "scan_int64 s (Suc i) (d * 10 + word_of_nat (digit_of (s ! i))) =
          (let run = takeWhile is_digit (drop (Suc i) s)
           in if run \<noteq> [] \<and> 18 < Suc i + length run then Fallback
              else Stop (Suc i + length run)
                     (foldl (\<lambda>a ch. a * 10 + word_of_nat (digit_of ch))
                        (d * 10 + word_of_nat (digit_of (s ! i))) run))"
          by (simp add: Let_def)
        show ?thesis
          using \<open>i < length s\<close> d dr False
          by (subst scan_int64.simps) (auto simp add: Let_def ih)
      qed
    qed
  qed
qed

lemma foldl_word_of_nat:
  "foldl (\<lambda>a ch. a * 10 + word_of_nat (digit_of ch)) (word_of_nat a :: int64) run
     = word_of_nat (foldl (\<lambda>a ch. a * 10 + digit_of ch) a run)"
proof (induction run arbitrary: a)
  case Nil
  show ?case by simp
next
  case (Cons x run)
  show ?case using Cons.IH [of "a * 10 + digit_of x"] by simp
qed

lemma foldl_decimal:
  "foldl (\<lambda>a ch. a * 10 + word_of_nat (digit_of ch)) (0 :: int64) run = word_of_nat (decimal run)"
  using foldl_word_of_nat [of 0 run] by (simp add: decimal_def)

lemma list_all_take_takeWhile:
  "list_all P (take n xs) = (min n (length xs) \<le> length (takeWhile P xs))"
proof (induction xs arbitrary: n)
  case Nil
  show ?case by simp
next
  case (Cons x xs)
  show ?case
  proof (cases n)
    case 0
    then show ?thesis by simp
  next
    case (Suc m)
    then show ?thesis using Cons.IH [of m] by simp
  qed
qed

lemma takeWhile_full: "length (takeWhile P xs) = length xs \<Longrightarrow> takeWhile P xs = xs"
  by (induction xs) (auto split: if_splits)

lemma ParseInt64BestEffort_minus:
  assumes "r \<noteq> []"
  shows "ParseInt64BestEffort f (CHR ''-'' # r) =
     (let run = takeWhile is_digit r
      in if 18 \<le> length run then slow_ParseInt f (CHR ''-'' # r)
         else if run = [] then 0
         else if length run < length r then 0
         else - word_of_nat (decimal run))"
  using assms
  by (auto simp add: ParseInt64BestEffort_def scan_int64_run Let_def foldl_decimal)

lemma ParseInt64BestEffort_plain:
  assumes "ch \<noteq> CHR ''-''"
  shows "ParseInt64BestEffort f (ch # r) =
     (let run = takeWhile is_digit (ch # r)
      in if 19 \<le> length run then slow_ParseInt f (ch # r)
         else if run = [] then 0
         else if length run < length (ch # r) then 0
         else word_of_nat (decimal run))"
  using assms
  by (auto simp add: ParseInt64BestEffort_def scan_int64_run Let_def foldl_decimal)

text \<open>
  \<open>ParseInt64BestEffort\<close> is a parse of the whole string: 0 unless the first 19 bytes
  are the text of a decimal integer; the integer itself when the string has at most 18
  bytes; the verdict of \<open>strconv.ParseInt\<close> on the whole string when it is longer.
\<close>

lemma ParseInt64BestEffort_whole_string:
  "ParseInt64BestEffort strconv_ParseInt s =
     (if \<not> int_literal (take 19 s) then 0
      else if length s \<le> 18 then word_of_int (int_value s)
      else slow_ParseInt strconv_ParseInt s)"
proof (cases s)
  case Nil
  then show ?thesis by (simp add: ParseInt64BestEffort_def int_literal_def)
next
  case (Cons ch r)
  show ?thesis
  proof (cases "ch = CHR ''-''")
    case True
    define L where "L = length (takeWhile is_digit r)"
    have Lr: "L \<le> length r" unfolding L_def by (rule length_takeWhile_le)
    have lit: "int_literal (take 19 s) = (r \<noteq> [] \<and> min 18 (length r) \<le> L)"
      using Cons True by (auto simp add: int_literal_def list_all_take_takeWhile L_def)
    show ?thesis
    proof (cases "r = []")
      case True
      then show ?thesis using Cons \<open>ch = CHR ''-''\<close>
        by (simp add: ParseInt64BestEffort_def int_literal_def)
    next
      case False
      note pm = ParseInt64BestEffort_minus [OF False, of strconv_ParseInt, folded L_def]
      consider (a) "18 \<le> L" | (b) "L = 0" | (c) "0 < L" "L < 18" "L < length r"
        | (d) "0 < L" "L < 18" "L = length r"
        using Lr by linarith
      then show ?thesis
      proof cases
        case a
        then show ?thesis using Cons True lit False Lr
          by (simp add: pm Let_def L_def [symmetric])
      next
        case b
        then show ?thesis using Cons True lit False
          by (simp add: pm Let_def L_def [symmetric])
      next
        case c
        then show ?thesis using Cons True lit False
          by (simp add: pm Let_def L_def [symmetric])
      next
        case d
        then have tw: "takeWhile is_digit r = r"
          unfolding L_def by (simp add: takeWhile_full)
        have "ParseInt64BestEffort strconv_ParseInt s = - word_of_nat (decimal r)"
          unfolding Cons True ParseInt64BestEffort_minus [OF False] Let_def tw
          using d False tw by (simp add: L_def)
        moreover have "int_literal (take 19 s)" "length s \<le> 18"
          using d lit False Cons by simp_all
        moreover have "int_value s = - int (decimal r)"
          using Cons True by (simp add: int_value_def)
        ultimately show ?thesis by simp
      qed
    qed
  next
    case False
    define L where "L = length (takeWhile is_digit s)"
    have Lr: "L \<le> length s" unfolding L_def by (rule length_takeWhile_le)
    have lit: "int_literal (take 19 s) = (min 19 (length s) \<le> L)"
      using Cons False by (simp add: int_literal_def list_all_take_takeWhile [symmetric] L_def)
    note pp = ParseInt64BestEffort_plain [OF False, of strconv_ParseInt r, folded Cons, folded L_def]
    have len: "0 < length s" using Cons by simp
    consider (a) "19 \<le> L" | (b) "L = 0" | (c) "0 < L" "L < 19" "L < length s"
      | (d) "0 < L" "L < 19" "L = length s"
      using Lr by linarith
    then show ?thesis
    proof cases
      case a
      then show ?thesis using lit Lr by (simp add: pp Let_def L_def [symmetric])
    next
      case b
      then show ?thesis using lit len by (simp add: pp Let_def L_def [symmetric])
    next
      case c
      then show ?thesis using lit by (simp add: pp Let_def L_def [symmetric])
    next
      case d
      then have tw: "takeWhile is_digit s = s"
        unfolding L_def by (simp add: takeWhile_full)
      have "ParseInt64BestEffort strconv_ParseInt s = word_of_nat (decimal s)"
        using ParseInt64BestEffort_plain [OF False, of strconv_ParseInt r] d len tw
        unfolding Cons [symmetric] Let_def tw by (simp add: L_def)
      moreover have "int_literal (take 19 s)" "length s \<le> 18"
        using d lit by simp_all
      moreover have "int_value s = int (decimal s)"
        using Cons False by (simp add: int_value_def)
      ultimately show ?thesis by simp
    qed
  qed
qed

lemma foldl_digits_bound:
  "list_all is_digit run \<Longrightarrow>
     foldl (\<lambda>a ch. a * 10 + digit_of ch) a run < (a + 1) * 10 ^ length run"
proof (induction run arbitrary: a)
  case Nil
  show ?case by simp
next
  case (Cons x run)
  then have "is_digit x" by simp
  then have "digit_of x \<le> 9" unfolding is_digit_def digit_of_def by linarith
  then have "(a * 10 + digit_of x + 1) * 10 ^ length run \<le> (a + 1) * 10 ^ length (x # run)"
    by (simp add: algebra_simps)
  moreover have "foldl (\<lambda>a ch. a * 10 + digit_of ch) (a * 10 + digit_of x) run
                   < (a * 10 + digit_of x + 1) * 10 ^ length run"
    using Cons by simp
  ultimately show ?case by simp
qed

lemma decimal_bound: "list_all is_digit run \<Longrightarrow> decimal run < 10 ^ length run"
  using foldl_digits_bound [of run 0] by (simp add: decimal_def)

lemma int_value_bound:
  assumes "int_literal s" "length s \<le> 18"
  shows "- (10 ^ 18) < int_value s \<and> int_value s < 10 ^ 18"
proof -
  obtain ch r where s: "s = ch # r" using assms(1) by (cases s) (simp_all add: int_literal_def)
  have p: "(10::nat) ^ n \<le> 10 ^ 18" if "n \<le> 18" for n
    using that by (rule power_increasing) simp
  show ?thesis
  proof (cases "ch = CHR ''-''")
    case True
    then have "list_all is_digit r" using assms(1) s by (simp add: int_literal_def)
    then have "decimal r < 10 ^ length r" by (rule decimal_bound)
    moreover have "(10::nat) ^ length r \<le> 10 ^ 18" using assms(2) s by (intro p) simp
    ultimately have "decimal r < 10 ^ 18" by linarith
    then have "int (decimal r) < 10 ^ 18" by (metis of_nat_less_iff of_nat_numeral of_nat_power)
    then show ?thesis using s True by (simp add: int_value_def)
  next
    case False
    then have "list_all is_digit s" using assms(1) s by (simp add: int_literal_def)
    then have "decimal s < 10 ^ length s" by (rule decimal_bound)
    moreover have "(10::nat) ^ length s \<le> 10 ^ 18" using assms(2) by (intro p)
    ultimately have "decimal s < 10 ^ 18" by linarith
    then have "int (decimal s) < 10 ^ 18" by (metis of_nat_less_iff of_nat_numeral of_nat_power)
    then show ?thesis using s False by (simp add: int_value_def)
  qed
qed

lemma sint_int_value:
  assumes "int_literal s" "length s \<le> 18"
  shows "sint (word_of_int (int_value s) :: int64) = int_value s"
proof -
  have "- (10 ^ 18) < int_value s" "int_value s < 10 ^ 18"
    using int_value_bound [OF assms] by simp_all
  then have "- (2 ^ 63) \<le> int_value s" "int_value s < 2 ^ 63" by simp_all
  then show ?thesis
    by (simp add: sint_sbintrunc' signed_take_bit_int_eq_self)
qed

text \<open>
  C1, amended. On a known column, \<open>GetInt\<close> without \<open>nullable\<close> returns 0 for the
  cell \<open>null\<close>. For a cell that is not \<open>null\<close> it returns 1 when the cell is \<open>true\<close>,
  and otherwise what \<open>fastfloat.ParseInt64BestEffort\<close> makes of the whole cell: the
  integer the cell denotes when the cell is an optional \<open>-\<close> followed by decimal digits
  and nothing else (a cell of more than 18 bytes goes to \<open>strconv.ParseInt\<close>, with 0 on
  its error), and 0 for any other text. Trailing bytes after a valid prefix are not
  ignored: they make the result 0. For at most 18 bytes the \<open>int64\<close> is the denoted
  integer itself, not a wrapped one.
\<close>

theorem GetInt_whole_cell:
  assumes "csvFormat (pp c) key = Some idx" "0 \<le> idx" "idx < int (length (values' c))"
      and "values' c ! nat idx = cell"
      and "fastfloat_ParseInt64BestEffort D = ParseInt64BestEffort strconv_ParseInt"
  shows "(cell = ''null'' \<longrightarrow> GetInt D c key False = Inr (VInt64 0))
       \<and> (cell \<noteq> ''null'' \<longrightarrow>
            GetInt D c key nullable =
              Inr (VInt64
                (if cell = ''true'' then 1
                 else if \<not> int_literal (take 19 cell) then 0
                 else if length cell \<le> 18 then word_of_int (int_value cell)
                 else slow_ParseInt strconv_ParseInt cell)))
       \<and> (int_literal cell \<and> length cell \<le> 18 \<longrightarrow>
            sint (word_of_int (int_value cell) :: int64) = int_value cell)"
  using assms
  by (simp add: GetInt_def index_def ParseInt64BestEffort_whole_string sint_int_value)

lemma example_fastfloat_int:
  "fastfloat_ParseInt64BestEffort example_deps = ParseInt64BestEffort example_ParseInt"
  by (simp add: example_deps_def)

lemma int_examples:
  "int_literal ''42''" "int_value ''42'' = 42" "\<not> int_literal ''42.9''" "\<not> int_literal ''abc''"
  "int_literal ''-17''" "int_value ''-17'' = - 17"
  by (simp_all add: int_literal_def int_value_def decimal_def is_digit_def digit_of_def)

theorem GetInt_whole_cell_witness:
  "csvFormat (pp \<lparr>pp = example_pool, values' = [''42'', ''42.9'']\<rparr>) ''a'' = Some 0
   \<and> values' \<lparr>pp = example_pool, values' = [''42'', ''42.9'']\<rparr> ! nat 0 = ''42''
   \<and> ''42'' \<noteq> ''null'' \<and> int_literal ''42'' \<and> length ''42'' \<le> 18
   \<and> fastfloat_ParseInt64BestEffort example_deps = ParseInt64BestEffort example_ParseInt
   \<and> GetInt example_deps \<lparr>pp = example_pool, values' = [''42'', ''42.9'']\<rparr> ''a'' False
        = Inr (VInt64 42)
   \<and> sint (42 :: int64) = 42
   \<and> csvFormat (pp \<lparr>pp = example_pool, values' = [''42'', ''42.9'']\<rparr>) ''b'' = Some 1
   \<and> values' \<lparr>pp = example_pool, values' = [''42'', ''42.9'']\<rparr> ! nat 1 = ''42.9''
   \<and> ''42.9'' \<noteq> ''null''
   \<and> GetInt example_deps \<lparr>pp = example_pool, values' = [''42'', ''42.9'']\<rparr> ''b'' False
        = Inr (VInt64 0)
   \<and> GetInt example_deps \<lparr>pp = example_pool, values' = [''abc'', ''null'']\<rparr> ''a'' False
        = Inr (VInt64 0)
   \<and> ''null'' = ''null''
   \<and> GetInt example_deps \<lparr>pp = example_pool, values' = [''abc'', ''null'']\<rparr> ''b'' False
        = Inr (VInt64 0)
   \<and> GetInt example_deps \<lparr>pp = example_pool, values' = [''true'', ''-17'']\<rparr> ''a'' False
        = Inr (VInt64 1)
   \<and> GetInt example_deps \<lparr>pp = example_pool, values' = [''true'', ''-17'']\<rparr> ''b'' False
        = Inr (VInt64 (- 17))"
  using GetInt_whole_cell [of "\<lparr>pp = example_pool, values' = [''42'', ''42.9'']\<rparr>" "''a''" 0
          "''42''" example_deps example_ParseInt False]
        GetInt_whole_cell [of "\<lparr>pp = example_pool, values' = [''42'', ''42.9'']\<rparr>" "''b''" 1
          "''42.9''" example_deps example_ParseInt False]
        GetInt_whole_cell [of "\<lparr>pp = example_pool, values' = [''abc'', ''null'']\<rparr>" "''a''" 0
          "''abc''" example_deps example_ParseInt False]
        GetInt_whole_cell [of "\<lparr>pp = example_pool, values' = [''abc'', ''null'']\<rparr>" "''b''" 1
          "''null''" example_deps example_ParseInt False]
        GetInt_whole_cell [of "\<lparr>pp = example_pool, values' = [''true'', ''-17'']\<rparr>" "''a''" 0
          "''true''" example_deps example_ParseInt False]
        GetInt_whole_cell [of "\<lparr>pp = example_pool, values' = [''true'', ''-17'']\<rparr>" "''b''" 1
          "''-17''" example_deps example_ParseInt False]
  by (simp add: example_known example_fastfloat_int int_examples)

text \<open>
  C1, as the spec states it, fails on the cell \<open>42.9\<close>: the longest valid leading
  integer prefix denotes 42, and \<open>GetInt\<close> returns 0.
\<close>

theorem GetInt_leading_prefix_counterexample:
  "csvFormat (pp \<lparr>pp = example_pool, values' = [''42'', ''42.9'']\<rparr>) ''b'' = Some 1
   \<and> values' \<lparr>pp = example_pool, values' = [''42'', ''42.9'']\<rparr> ! 1 = ''42.9''
   \<and> spec_leading_int ''42.9'' = 42
   \<and> fastfloat_ParseInt64BestEffort example_deps ''42.9'' = 0
   \<and> GetInt example_deps \<lparr>pp = example_pool, values' = [''42'', ''42.9'']\<rparr> ''b'' False
        = Inr (VInt64 0)
   \<and> GetInt example_deps \<lparr>pp = example_pool, values' = [''42'', ''42.9'']\<rparr> ''b'' False
        \<noteq> Inr (VInt64 (word_of_int (spec_leading_int ''42.9'')))"
proof -
  have a: "spec_leading_int ''42.9'' = 42"
    by (simp add: spec_leading_int_def decimal_def is_digit_def digit_of_def)
  have b: "ParseInt64BestEffort example_ParseInt ''42.9'' = 0"
    by (simp add: ParseInt64BestEffort_def scan_int64.simps is_digit_def digit_of_def)
  show ?thesis
    by (simp add: a b example_known example_fastfloat_int GetInt_def index_def)
qed

subsection \<open>GetFloat and the float parser\<close>

text \<open>
  A digit loop that stops does so at an index it reached by reading digits only.
\<close>

lemma scan_int64_Stop:
  "scan_int64 s i d = Stop i' d' \<Longrightarrow> i \<le> i' \<and> (i < i' \<longrightarrow> i' \<le> length s \<and> is_digit (s ! (i' - 1)))"
proof (induction s i d rule: scan_int64.induct)
  case (1 s i d)
  show ?case
  proof (cases "i < length s \<and> is_digit (s ! i) \<and> \<not> 18 < i + 1")
    case True
    then have "scan_int64 s (i + 1) (d * 10 + word_of_nat (digit_of (s ! i))) = Stop i' d'"
      using "1.prems" by (subst (asm) scan_int64.simps) (simp add: Let_def)
    then have "i + 1 \<le> i' \<and> (i + 1 < i' \<longrightarrow> i' \<le> length s \<and> is_digit (s ! (i' - 1)))"
      using "1.IH" [of "d * 10 + word_of_nat (digit_of (s ! i))" "i + 1"] True by simp
    then show ?thesis using True by (cases "i + 1 = i'") auto
  next
    case False
    then have "i' = i"
      using "1.prems" by (subst (asm) scan_int64.simps) (auto simp add: Let_def split: if_splits)
    then show ?thesis by simp
  qed
qed

lemma scan_fraction_Stop:
  "scan_fraction j s i d = Stop i' d' \<Longrightarrow> i \<le> i' \<and> (i < i' \<longrightarrow> i' \<le> length s \<and> is_digit (s ! (i' - 1)))"
proof (induction j s i d rule: scan_fraction.induct)
  case (1 j s i d)
  show ?case
  proof (cases "i < length s \<and> is_digit (s ! i) \<and> \<not> 17 \<le> i + 1 - j")
    case True
    then have "scan_fraction j s (i + 1) (d * 10 + word_of_nat (digit_of (s ! i))) = Stop i' d'"
      using "1.prems" by (subst (asm) scan_fraction.simps) (simp add: Let_def)
    then have "i + 1 \<le> i' \<and> (i + 1 < i' \<longrightarrow> i' \<le> length s \<and> is_digit (s ! (i' - 1)))"
      using "1.IH" [of "d * 10 + word_of_nat (digit_of (s ! i))" "i + 1"] True by simp
    then show ?thesis using True by (cases "i + 1 = i'") auto
  next
    case False
    then have "i' = i"
      using "1.prems" by (subst (asm) scan_fraction.simps) (auto simp add: Let_def split: if_splits)
    then show ?thesis by simp
  qed
qed

lemma scan_exponent_Stop:
  "scan_exponent s i e = Stop i' e' \<Longrightarrow> i \<le> i' \<and> (i < i' \<longrightarrow> i' \<le> length s \<and> is_digit (s ! (i' - 1)))"
proof (induction s i e rule: scan_exponent.induct)
  case (1 s i e)
  show ?case
  proof (cases "i < length s \<and> is_digit (s ! i) \<and> \<not> 300 < e * 10 + int (digit_of (s ! i))")
    case True
    then have "scan_exponent s (i + 1) (e * 10 + int (digit_of (s ! i))) = Stop i' e'"
      using "1.prems" by (subst (asm) scan_exponent.simps) (simp add: Let_def)
    then have "i + 1 \<le> i' \<and> (i + 1 < i' \<longrightarrow> i' \<le> length s \<and> is_digit (s ! (i' - 1)))"
      using "1.IH" [of "e * 10 + int (digit_of (s ! i))" "i + 1"] True by simp
    then show ?thesis using True by (cases "i + 1 = i'") auto
  next
    case False
    then have "i' = i"
      using "1.prems" by (subst (asm) scan_exponent.simps) (auto simp add: Let_def split: if_splits)
    then show ?thesis by simp
  qed
qed

text \<open>A loop that stops at or past the end after reading something stopped on a digit: the last byte.\<close>

lemma stop_at_end_last:
  assumes "i \<le> i' \<and> (i < i' \<longrightarrow> i' \<le> length s \<and> is_digit (s ! (i' - 1)))"
      and "i < i'" "length s \<le> i'"
  shows "is_digit (last s)"
proof -
  have "i' = length s" "is_digit (s ! (i' - 1))" using assms by auto
  moreover have "s \<noteq> []" using assms by auto
  ultimately show ?thesis by (simp add: last_conv_nth)
qed

lemma lower_ascii_eq:
  assumes "lower_ascii ch = t" "97 \<le> (of_char t :: nat)" "(of_char t :: nat) \<le> 122"
  shows "ch = t \<or> (of_char ch :: nat) = of_char t - 32"
proof (cases "65 \<le> (of_char ch :: nat) \<and> (of_char ch :: nat) \<le> 90")
  case False
  then show ?thesis using assms(1) by (auto simp add: lower_ascii_def)
next
  case True
  then have "char_of ((of_char ch :: nat) + 32) = t"
    using assms(1) by (simp add: lower_ascii_def)
  then have "(of_char (char_of ((of_char ch :: nat) + 32)) :: nat) = of_char t" by simp
  then have "(of_char ch :: nat) + 32 = of_char t" using True by simp
  then have "(of_char ch :: nat) = of_char t - 32" by linarith
  then show ?thesis by blast
qed

lemma char_by_code: "(of_char ch :: nat) = of_char t \<Longrightarrow> ch = t"
  by simp

lemma lower_ascii_f: "lower_ascii ch = CHR ''f'' \<Longrightarrow> ch = CHR ''f'' \<or> ch = CHR ''F''"
  using lower_ascii_eq [of ch "CHR ''f''"] char_by_code [of ch "CHR ''F''"] by auto

lemma lower_ascii_y: "lower_ascii ch = CHR ''y'' \<Longrightarrow> ch = CHR ''y'' \<or> ch = CHR ''Y''"
  using lower_ascii_eq [of ch "CHR ''y''"] char_by_code [of ch "CHR ''Y''"] by auto

lemma lower_ascii_n: "lower_ascii ch = CHR ''n'' \<Longrightarrow> ch = CHR ''n'' \<or> ch = CHR ''N''"
  using lower_ascii_eq [of ch "CHR ''n''"] char_by_code [of ch "CHR ''N''"] by auto

lemma EqualFold_last:
  assumes "strings_EqualFold s t" "t \<noteq> []"
  shows "s \<noteq> [] \<and> lower_ascii (last s) = lower_ascii (last t)"
proof -
  have m: "map lower_ascii s = map lower_ascii t" using assms(1) by (simp add: strings_EqualFold_def)
  then have "length s = length t" by (metis length_map)
  then have ne: "s \<noteq> []" using assms(2) by auto
  have "last (map lower_ascii s) = last (map lower_ascii t)" using m by simp
  then show ?thesis using ne assms(2) by (simp add: last_map)
qed

lemma EqualFold_words_last:
  assumes "strings_EqualFold s ''inf'' \<or> strings_EqualFold s ''infinity'' \<or> strings_EqualFold s ''nan''"
  shows "s \<noteq> [] \<and> last s \<in> set ''fFyYnN''"
proof -
  have l: "lower_ascii (CHR ''f'') = CHR ''f''" "lower_ascii (CHR ''y'') = CHR ''y''"
    "lower_ascii (CHR ''n'') = CHR ''n''"
    by (simp_all add: lower_ascii_def)
  consider (f) "s \<noteq> []" "lower_ascii (last s) = CHR ''f''"
    | (y) "s \<noteq> []" "lower_ascii (last s) = CHR ''y''"
    | (n) "s \<noteq> []" "lower_ascii (last s) = CHR ''n''"
    using assms EqualFold_last [of s "''inf''"] EqualFold_last [of s "''infinity''"]
      EqualFold_last [of s "''nan''"]
    by (auto simp add: l)
  then show ?thesis
  proof cases
    case f
    then show ?thesis using lower_ascii_f [of "last s"] by auto
  next
    case y
    then show ?thesis using lower_ascii_y [of "last s"] by auto
  next
    case n
    then show ?thesis using lower_ascii_n [of "last s"] by auto
  qed
qed

lemma ParseBestEffort_exponent_garbage:
  assumes "\<not> is_digit (last s)"
  shows "ParseBestEffort_exponent F s m i f = f64_zero F
       \<or> ParseBestEffort_exponent F s m i f = slow_ParseFloat F s"
proof -
  have stop: "i3 \<le> i2 \<or> i3 < length s"
    if "scan_exponent s i2 0 = Stop i3 e" for i2 i3 e
    using stop_at_end_last [OF scan_exponent_Stop [OF that]] assms by force
  show ?thesis
    unfolding ParseBestEffort_exponent_def Let_def
    by (auto split: scan.splits dest: stop)
qed

lemma ParseBestEffort_fraction_garbage:
  assumes "\<not> is_digit (last s)"
  shows "ParseBestEffort_fraction F s m j i d = f64_zero F
       \<or> ParseBestEffort_fraction F s m j i d = slow_ParseFloat F s"
proof -
  have stop: "i3 \<le> i2 \<or> i3 < length s"
    if "scan_fraction j s i2 d = Stop i3 d3" for i2 i3 d3
    using stop_at_end_last [OF scan_fraction_Stop [OF that]] assms by force
  note ex = ParseBestEffort_exponent_garbage [OF assms, of F m]
  show ?thesis
  proof (cases "s ! i = CHR ''.''")
    case False
    then show ?thesis using ex by (simp add: ParseBestEffort_fraction_def)
  next
    case True
    show ?thesis
    proof (cases "length s \<le> i + 1")
      case True
      then show ?thesis using \<open>s ! i = CHR ''.''\<close> by (simp add: ParseBestEffort_fraction_def)
    next
      case False
      show ?thesis
      proof (cases "scan_fraction j s (i + 1) d")
        case Fallback
        then show ?thesis using \<open>s ! i = CHR ''.''\<close> False
          by (simp add: ParseBestEffort_fraction_def)
      next
        case (Stop i3 d3)
        then have "i3 \<le> i + 1 \<or> i3 < length s" by (rule stop)
        then have "i3 < length s" using False by linarith
        then show ?thesis using \<open>s ! i = CHR ''.''\<close> False Stop ex
          by (simp add: ParseBestEffort_fraction_def Let_def)
      qed
    qed
  qed
qed

lemma ParseBestEffort_special_garbage:
  assumes "last s \<notin> set ''fFyYnN''"
  shows "ParseBestEffort_special F s m i = f64_zero F"
proof -
  have w: "\<not> (strings_EqualFold (drop k s) ''inf'' \<or> strings_EqualFold (drop k s) ''infinity''
              \<or> strings_EqualFold (drop k s) ''nan'')" for k
  proof
    assume a: "strings_EqualFold (drop k s) ''inf'' \<or> strings_EqualFold (drop k s) ''infinity''
              \<or> strings_EqualFold (drop k s) ''nan''"
    have ne: "drop k s \<noteq> []" and l: "last (drop k s) \<in> set ''fFyYnN''"
      using EqualFold_words_last [OF a] by blast+
    have "k < length s" using ne by simp
    then have "last (drop k s) = last s" by (rule last_drop)
    then show False using l assms by metis
  qed
  have d: "drop 1 (drop i s) = drop (1 + i) s" by simp
  show ?thesis
    unfolding ParseBestEffort_special_def Let_def d
    using w [of i] w [of "1 + i"] by (simp del: drop_drop)
qed

text \<open>
  \<open>ParseBestEffort\<close> reads the whole string: when the last byte is one no number ends
  with, the result is 0, or the verdict of \<open>strconv.ParseFloat\<close> on the whole string.
\<close>

lemma ParseBestEffort_trailing_garbage:
  assumes "s \<noteq> []" "\<not> ends_number (last s)"
  shows "ParseBestEffort F s = f64_zero F \<or> ParseBestEffort F s = slow_ParseFloat F s"
proof -
  have nd: "\<not> is_digit (last s)" and nl: "last s \<notin> set ''fFyYnN''"
    using assms(2) by (simp_all add: ends_number_def)
  have main: "(case scan_int64 s i0 0 of
                 Fallback \<Rightarrow> slow_ParseFloat F s
               | Stop i d \<Rightarrow>
                   if i \<le> i0 then ParseBestEffort_special F s m i
                   else if i \<ge> length s then X d
                   else ParseBestEffort_fraction F s m i0 i d) \<in> {f64_zero F, slow_ParseFloat F s}"
    for i0 m X
  proof (cases "scan_int64 s i0 0")
    case Fallback
    then show ?thesis by simp
  next
    case (Stop i d)
    show ?thesis
    proof (cases "i \<le> i0")
      case True
      then show ?thesis using Stop ParseBestEffort_special_garbage [OF nl, of F m i] by simp
    next
      case False
      have "i \<le> i0 \<or> i < length s"
        using stop_at_end_last [OF scan_int64_Stop [OF Stop]] nd by force
      then have "i < length s" using False by simp
      then show ?thesis
        using False Stop ParseBestEffort_fraction_garbage [OF nd, of F m i0 i d] by auto
    qed
  qed
  show ?thesis
  proof (cases "s ! 0 = CHR ''-''")
    case True
    show ?thesis
      using main [of 1 True "\<lambda>d. f64_neg F (f64_of_uint64 F d)"] assms(1) True
      by (auto simp add: ParseBestEffort_def Let_def split: scan.splits)
  next
    case False
    show ?thesis
      using main [of 0 False "\<lambda>d. f64_of_uint64 F d"] assms(1) False
      by (auto simp add: ParseBestEffort_def Let_def split: scan.splits)
  qed
qed


text \<open>
  The digit loops of the fraction and of the exponent, as the run of digits they read.
\<close>

lemma digit_not_punct:
  "is_digit ch \<Longrightarrow> ch \<noteq> CHR ''-'' \<and> ch \<noteq> CHR ''+'' \<and> ch \<noteq> CHR ''.'' \<and> ch \<noteq> CHR ''e'' \<and> ch \<noteq> CHR ''E''"
  by (auto simp add: is_digit_def)

lemma takeWhile_digits_append:
  "list_all is_digit xs \<Longrightarrow> ys = [] \<or> \<not> is_digit (hd ys) \<Longrightarrow> takeWhile is_digit (xs @ ys) = xs"
  by (induction xs) (auto simp add: takeWhile_eq_Nil_iff)

lemma scan_fraction_run:
  "scan_fraction j s i d =
     (let run = takeWhile is_digit (drop i s)
      in if run \<noteq> [] \<and> 17 \<le> i + length run - j then Fallback
         else Stop (i + length run)
                (foldl (\<lambda>a ch. a * 10 + word_of_nat (digit_of ch)) d run))"
proof (induction j s i d rule: scan_fraction.induct)
  case (1 j s i d)
  show ?case
  proof (cases "i < length s")
    case False
    then show ?thesis by (subst scan_fraction.simps) simp
  next
    case True
    then have dr: "drop i s = s ! i # drop (Suc i) s"
      by (simp add: Cons_nth_drop_Suc)
    show ?thesis
    proof (cases "is_digit (s ! i)")
      case False
      then show ?thesis using True dr by (subst scan_fraction.simps) simp
    next
      case d: True
      show ?thesis
      proof (cases "17 \<le> i + 1 - j")
        case True
        then show ?thesis using \<open>i < length s\<close> d dr
          by (subst scan_fraction.simps) (simp add: Let_def)
      next
        case False
        have "scan_fraction j s (i + 1) (d * 10 + word_of_nat (digit_of (s ! i))) =
          (let run = takeWhile is_digit (drop (i + 1) s)
           in if run \<noteq> [] \<and> 17 \<le> i + 1 + length run - j then Fallback
              else Stop (i + 1 + length run)
                     (foldl (\<lambda>a ch. a * 10 + word_of_nat (digit_of ch))
                        (d * 10 + word_of_nat (digit_of (s ! i))) run))"
          using "1.IH" [OF \<open>i < length s\<close> d refl refl False] .
        then have ih: "scan_fraction j s (Suc i) (d * 10 + word_of_nat (digit_of (s ! i))) =
          (let run = takeWhile is_digit (drop (Suc i) s)
           in if run \<noteq> [] \<and> 17 \<le> Suc i + length run - j then Fallback
              else Stop (Suc i + length run)
                     (foldl (\<lambda>a ch. a * 10 + word_of_nat (digit_of ch))
                        (d * 10 + word_of_nat (digit_of (s ! i))) run))"
          by (simp add: Let_def)
        show ?thesis
          using \<open>i < length s\<close> d dr False
          by (subst scan_fraction.simps) (auto simp add: Let_def ih)
      qed
    qed
  qed
qed

lemma foldl_exponent_mono:
  "0 \<le> e \<Longrightarrow> e \<le> foldl (\<lambda>a ch. a * 10 + int (digit_of ch)) e run"
proof (induction run arbitrary: e)
  case Nil
  show ?case by simp
next
  case (Cons x run)
  have "e \<le> e * 10 + int (digit_of x)" using Cons.prems by simp
  moreover have "e * 10 + int (digit_of x) \<le> foldl (\<lambda>a ch. a * 10 + int (digit_of ch)) (e * 10 + int (digit_of x)) run"
    using Cons.IH [of "e * 10 + int (digit_of x)"] Cons.prems by simp
  ultimately show ?case by simp
qed

lemma scan_exponent_run:
  "0 \<le> e \<Longrightarrow> scan_exponent s i e =
     (let run = takeWhile is_digit (drop i s)
      in if run \<noteq> [] \<and> 300 < foldl (\<lambda>a ch. a * 10 + int (digit_of ch)) e run then Fallback
         else Stop (i + length run) (foldl (\<lambda>a ch. a * 10 + int (digit_of ch)) e run))"
proof (induction s i e rule: scan_exponent.induct)
  case (1 s i e)
  show ?case
  proof (cases "i < length s")
    case False
    then show ?thesis by (subst scan_exponent.simps) simp
  next
    case True
    then have dr: "drop i s = s ! i # drop (Suc i) s"
      by (simp add: Cons_nth_drop_Suc)
    show ?thesis
    proof (cases "is_digit (s ! i)")
      case False
      then show ?thesis using True dr by (subst scan_exponent.simps) simp
    next
      case d: True
      define e' where "e' = e * 10 + int (digit_of (s ! i))"
      have e'0: "0 \<le> e'" using "1.prems" by (simp add: e'_def)
      have mono: "e' \<le> foldl (\<lambda>a ch. a * 10 + int (digit_of ch)) e' (takeWhile is_digit (drop (Suc i) s))"
        using foldl_exponent_mono [OF e'0] .
      show ?thesis
      proof (cases "300 < e'")
        case True
        then show ?thesis using \<open>i < length s\<close> d dr mono
          by (subst scan_exponent.simps) (simp add: Let_def e'_def [symmetric])
      next
        case False
        have "scan_exponent s (i + 1) e' =
          (let run = takeWhile is_digit (drop (i + 1) s)
           in if run \<noteq> [] \<and> 300 < foldl (\<lambda>a ch. a * 10 + int (digit_of ch)) e' run then Fallback
              else Stop (i + 1 + length run) (foldl (\<lambda>a ch. a * 10 + int (digit_of ch)) e' run))"
          using "1.IH" [OF \<open>i < length s\<close> d _ refl _ e'0] False by (simp add: e'_def)
        then have ih: "scan_exponent s (Suc i) e' =
          (let run = takeWhile is_digit (drop (Suc i) s)
           in if run \<noteq> [] \<and> 300 < foldl (\<lambda>a ch. a * 10 + int (digit_of ch)) e' run then Fallback
              else Stop (Suc i + length run) (foldl (\<lambda>a ch. a * 10 + int (digit_of ch)) e' run))"
          by (simp add: Let_def)
        show ?thesis
          using \<open>i < length s\<close> d dr False
          by (subst scan_exponent.simps) (auto simp add: Let_def ih e'_def [symmetric])
      qed
    qed
  qed
qed

lemma foldl_int_of_nat:
  "foldl (\<lambda>a ch. a * 10 + int (digit_of ch)) (int a) run
     = int (foldl (\<lambda>a ch. a * 10 + digit_of ch) a run)"
proof (induction run arbitrary: a)
  case Nil
  show ?case by simp
next
  case (Cons x run)
  show ?case using Cons.IH [of "a * 10 + digit_of x"] by simp
qed

lemma foldl_int_decimal:
  "foldl (\<lambda>a ch. a * 10 + int (digit_of ch)) 0 run = int (decimal run)"
  using foldl_int_of_nat [of 0 run] by (simp add: decimal_def)

lemma foldl_decimal_append:
  "foldl (\<lambda>a ch. a * 10 + word_of_nat (digit_of ch)) (word_of_nat (decimal ip) :: 64 word) fp
     = word_of_nat (decimal (ip @ fp))"
  using foldl_word_of_nat [of "decimal ip" fp] by (simp add: decimal_def)

text \<open>
  The three blocks on the parts of a decimal text, last first.
\<close>

lemma exponent_stage:
  assumes "exponent_ok (Exponent mark sg ep)"
  shows "ParseBestEffort_exponent F (pre @ mark # sg @ ep) m (length pre) f =
     (if decimal ep \<le> 300
      then (if m then f64_neg F (scaled F (Exponent mark sg ep) f)
            else scaled F (Exponent mark sg ep) f)
      else slow_ParseFloat F (pre @ mark # sg @ ep))"
proof -
  define s where "s = pre @ mark # sg @ ep"
  have mark: "mark = CHR ''e'' \<or> mark = CHR ''E''"
    and sg: "sg = [] \<or> sg = ''+'' \<or> sg = ''-''"
    and ep: "ep \<noteq> []" "list_all is_digit ep"
    using assms by simp_all
  have hd_ep: "is_digit (hd ep)" using ep by (cases ep) simp_all
  note np = digit_not_punct [OF hd_ep]
  have s_i: "s ! length pre = mark" by (simp add: s_def)
  have len: "length s = Suc (length pre + length sg + length ep)" by (simp add: s_def)
  have s_i1: "s ! Suc (length pre) = hd (sg @ ep)"
    using ep by (cases "sg @ ep") (simp_all add: s_def nth_append)
  have dr: "drop (Suc (length pre + length sg)) s = ep" by (simp add: s_def)
  have tw: "takeWhile is_digit ep = ep" using ep(2) by (simp add: list_all_iff)
  have sc: "scan_exponent s (Suc (length pre + length sg)) 0 =
              (if 300 < decimal ep then Fallback
               else Stop (length s) (int (decimal ep)))"
    using ep(1) by (simp add: scan_exponent_run dr tw foldl_int_decimal len Let_def)
  have eplen: "0 < length ep" using ep(1) by simp
  from sg show ?thesis
  proof (elim disjE)
    assume "sg = []"
    then show ?thesis
      unfolding s_def [symmetric] using mark sc np eplen
      by (simp add: ParseBestEffort_exponent_def Let_def s_i s_i1 len)
  next
    assume "sg = ''+''"
    then show ?thesis
      unfolding s_def [symmetric] using mark sc np eplen
      by (simp add: ParseBestEffort_exponent_def Let_def s_i s_i1 len)
  next
    assume "sg = ''-''"
    then show ?thesis
      unfolding s_def [symmetric] using mark sc np eplen
      by (simp add: ParseBestEffort_exponent_def Let_def s_i s_i1 len)
  qed
qed

lemma fraction_stage:
  assumes "fp \<noteq> []" "list_all is_digit fp" "ex = [] \<or> \<not> is_digit (hd ex)"
  shows "ParseBestEffort_fraction F (pre @ CHR ''.'' # fp @ ex) m j (length pre) d =
     (if 17 \<le> Suc (length pre + length fp) - j
      then slow_ParseFloat F (pre @ CHR ''.'' # fp @ ex)
      else (let f = f64_quo F
                      (f64_of_uint64 F (foldl (\<lambda>a ch. a * 10 + word_of_nat (digit_of ch)) d fp))
                      (f64_pow10 F (length fp))
            in if ex = [] then (if m then f64_neg F f else f)
               else ParseBestEffort_exponent F (pre @ CHR ''.'' # fp @ ex) m
                      (Suc (length pre + length fp)) f))"
proof -
  define s where "s = pre @ CHR ''.'' # fp @ ex"
  have s_i: "s ! length pre = CHR ''.''" by (simp add: s_def)
  have len: "length s = Suc (length pre + length fp + length ex)" by (simp add: s_def)
  have dr: "drop (Suc (length pre)) s = fp @ ex" by (simp add: s_def)
  have tw: "takeWhile is_digit (fp @ ex) = fp"
    using assms(2,3) by (rule takeWhile_digits_append)
  have sc: "scan_fraction j s (Suc (length pre)) d =
              (if 17 \<le> Suc (length pre + length fp) - j then Fallback
               else Stop (Suc (length pre + length fp))
                      (foldl (\<lambda>a ch. a * 10 + word_of_nat (digit_of ch)) d fp))"
    using assms(1) by (simp add: scan_fraction_run dr tw Let_def)
  have fplen: "0 < length fp" using assms(1) by simp
  show ?thesis
    unfolding s_def [symmetric] using sc fplen
    by (simp add: ParseBestEffort_fraction_def Let_def s_i len)
qed

lemma integer_stage:
  assumes "ip \<noteq> []" "list_all is_digit ip" "rest = [] \<or> \<not> is_digit (hd rest)"
  shows "ParseBestEffort F ((if mn then ''-'' else []) @ ip @ rest) =
     (if 18 < (if mn then 1 else 0) + length ip
      then slow_ParseFloat F ((if mn then ''-'' else []) @ ip @ rest)
      else if rest = []
      then (if mn then f64_neg F (f64_of_uint64 F (word_of_nat (decimal ip)))
            else f64_of_uint64 F (word_of_nat (decimal ip)))
      else ParseBestEffort_fraction F ((if mn then ''-'' else []) @ ip @ rest) mn
             (if mn then 1 else 0) ((if mn then 1 else 0) + length ip) (word_of_nat (decimal ip)))"
proof -
  have hd_ip: "is_digit (hd ip)" using assms(1,2) by (cases ip) simp_all
  note np = digit_not_punct [OF hd_ip]
  have tw: "takeWhile is_digit (ip @ rest) = ip"
    using assms(2,3) by (rule takeWhile_digits_append)
  have iplen: "0 < length ip" using assms(1) by simp
  show ?thesis
  proof (cases mn)
    case True
    define s where "s = CHR ''-'' # ip @ rest"
    have sc: "scan_int64 s (Suc 0) 0 =
                (if 18 < Suc (length ip) then Fallback
                 else Stop (Suc (length ip)) (word_of_nat (decimal ip)))"
      using assms(1) by (simp add: scan_int64_run s_def tw foldl_decimal Let_def)
    have s0: "s ! 0 = CHR ''-''" "length s = Suc (length ip + length rest)"
      by (simp_all add: s_def)
    have "ParseBestEffort F s =
       (if 18 < Suc (length ip) then slow_ParseFloat F s
        else if rest = [] then f64_neg F (f64_of_uint64 F (word_of_nat (decimal ip)))
        else ParseBestEffort_fraction F s True (Suc 0) (Suc (length ip)) (word_of_nat (decimal ip)))"
      using sc iplen by (simp add: ParseBestEffort_def Let_def s0)
    then show ?thesis using True by (simp add: s_def)
  next
    case False
    define s where "s = ip @ rest"
    have sc: "scan_int64 s 0 0 =
                (if 18 < length ip then Fallback
                 else Stop (length ip) (word_of_nat (decimal ip)))"
      using assms(1) by (simp add: scan_int64_run s_def tw foldl_decimal Let_def)
    have s0: "s ! 0 \<noteq> CHR ''-''" "length s = length ip + length rest"
      using np assms(1) by (cases ip; simp add: s_def)+
    have "ParseBestEffort F s =
       (if 18 < length ip then slow_ParseFloat F s
        else if rest = [] then f64_of_uint64 F (word_of_nat (decimal ip))
        else ParseBestEffort_fraction F s False 0 (length ip) (word_of_nat (decimal ip)))"
      using sc iplen by (simp add: ParseBestEffort_def Let_def s0)
    then show ?thesis using False by (simp add: s_def)
  qed
qed

lemma exponent_string_head:
  "exponent_ok ex \<Longrightarrow> exponent_string ex = [] \<or> \<not> is_digit (hd (exponent_string ex))"
  by (cases ex) (auto simp add: is_digit_def)

lemma ParseBestEffort_decimal:
  assumes "well_formed n"
  shows "ParseBestEffort F (text_of n) =
           (if fast n then float_of F n else slow_ParseFloat F (text_of n))"
proof -
  define mn where "mn = negative n"
  define ip where "ip = int_digits n"
  define fp where "fp = frac_digits n"
  define ex where "ex = exponent n"
  define sign where "sign = (if mn then ''-'' else [])"
  define i0 :: nat where "i0 = (if mn then 1 else 0)"
  define d :: "64 word" where "d = word_of_nat (decimal ip)"
  have ip: "ip \<noteq> []" "list_all is_digit ip" and fp: "list_all is_digit fp"
    and ex: "exponent_ok ex"
    using assms by (simp_all add: well_formed_def ip_def fp_def ex_def)
  note exh = exponent_string_head [OF ex]
  have i0: "i0 = length sign" by (simp add: i0_def sign_def)
  have fast: "fast n = (i0 + length ip \<le> 18
                \<and> (fp = [] \<or> length ip + 1 + length fp \<le> 16) \<and> exponent_small ex)"
    by (simp add: fast_def mn_def ip_def fp_def ex_def i0_def)
  have val: "float_of F n =
     (let m = (if fp = [] then f64_of_uint64 F d
               else f64_quo F (f64_of_uint64 F (word_of_nat (decimal (ip @ fp))))
                      (f64_pow10 F (length fp)));
          v = scaled F ex m
      in if mn then f64_neg F v else v)"
    by (simp add: float_of_def mn_def ip_def fp_def ex_def d_def)
  show ?thesis
  proof (cases "fp = []")
    case True
    have tx: "text_of n = sign @ ip @ exponent_string ex"
      using True by (simp add: text_of_def mn_def ip_def fp_def ex_def sign_def)
    note int = integer_stage [OF ip exh, of F mn, folded sign_def i0_def d_def, folded tx]
    show ?thesis
    proof (cases ex)
      case No_exponent
      then show ?thesis using True int by (simp add: fast val Let_def)
    next
      case (Exponent mark sg ep)
      have okE: "exponent_ok (Exponent mark sg ep)" using ex Exponent by simp
      have tx1: "text_of n = (sign @ ip) @ mark # sg @ ep"
        using tx Exponent by simp
      have nodot: "text_of n ! (i0 + length ip) \<noteq> CHR ''.''"
        using okE by (auto simp add: tx1 i0 nth_append)
      have fr: "ParseBestEffort_fraction F (text_of n) mn i0 (i0 + length ip) d
                  = ParseBestEffort_exponent F (text_of n) mn (i0 + length ip) (f64_of_uint64 F d)"
        using nodot by (simp add: ParseBestEffort_fraction_def)
      have es: "ParseBestEffort_exponent F (text_of n) mn (i0 + length ip) (f64_of_uint64 F d) =
         (if decimal ep \<le> 300
          then (if mn then f64_neg F (scaled F ex (f64_of_uint64 F d))
                else scaled F ex (f64_of_uint64 F d))
          else slow_ParseFloat F (text_of n))"
        using exponent_stage [OF okE, of F "sign @ ip" mn "f64_of_uint64 F d", folded tx1]
        by (simp add: i0 Exponent)
      show ?thesis
        using True int Exponent by (simp add: fast val Let_def fr es)
    qed
  next
    case False
    have tx: "text_of n = sign @ ip @ (CHR ''.'' # fp @ exponent_string ex)"
      using False by (simp add: text_of_def mn_def ip_def fp_def ex_def sign_def)
    have rest: "CHR ''.'' # fp @ exponent_string ex = [] \<or> \<not> is_digit (hd (CHR ''.'' # fp @ exponent_string ex))"
      by (simp add: is_digit_def)
    note int = integer_stage [OF ip rest, of F mn, folded sign_def i0_def d_def, folded tx]
    have tx1: "text_of n = (sign @ ip) @ CHR ''.'' # fp @ exponent_string ex"
      using tx by simp
    have fr: "ParseBestEffort_fraction F (text_of n) mn i0 (i0 + length ip) d =
       (if 17 \<le> Suc (length ip + length fp) then slow_ParseFloat F (text_of n)
        else (let f = f64_quo F (f64_of_uint64 F (word_of_nat (decimal (ip @ fp))))
                        (f64_pow10 F (length fp))
              in if exponent_string ex = [] then (if mn then f64_neg F f else f)
                 else ParseBestEffort_exponent F (text_of n) mn
                        (Suc (i0 + length ip + length fp)) f))"
      using fraction_stage [OF False fp exh, of F "sign @ ip" mn i0 d, folded tx1]
      by (simp add: i0 d_def foldl_decimal_append Let_def)
    show ?thesis
    proof (cases ex)
      case No_exponent
      then show ?thesis using False int by (auto simp add: fast val Let_def fr)
    next
      case (Exponent mark sg ep)
      have okE: "exponent_ok (Exponent mark sg ep)" using ex Exponent by simp
      have tx2: "text_of n = (sign @ ip @ CHR ''.'' # fp) @ mark # sg @ ep"
        using tx Exponent by simp
      have es: "ParseBestEffort_exponent F (text_of n) mn (Suc (i0 + length ip + length fp)) f =
         (if decimal ep \<le> 300
          then (if mn then f64_neg F (scaled F ex f) else scaled F ex f)
          else slow_ParseFloat F (text_of n))" for f
        using exponent_stage [OF okE, of F "sign @ ip @ CHR ''.'' # fp" mn f, folded tx2]
        by (simp add: i0 Exponent add.assoc)
      show ?thesis
        using False int Exponent by (auto simp add: fast val Let_def fr es)
    qed
  qed
qed


text \<open>
  C2, amended. On a known column whose cell is not \<open>null\<close>, \<open>GetFloat\<close> returns what
  \<open>fastfloat.ParseBestEffort\<close> makes of the whole cell. When the whole cell is the text
  of a decimal number (an optional \<open>-\<close>, integer digits, an optional fraction, an
  optional exponent), the result is the number the text denotes: the digits of the
  integer part and of the fraction as one integer, divided by the power of ten of the
  number of fraction digits, multiplied by the power of ten of the signed exponent, and
  negated after a \<open>-\<close>; for a text beyond the limits of \<open>fast\<close> it is what
  \<open>strconv.ParseFloat\<close> makes of the cell. When the cell ends in a byte that no number
  ends with (any byte but a decimal digit, a \<open>.\<close> and the last letters of \<open>inf\<close>,
  \<open>infinity\<close> and \<open>nan\<close>), the result is 0.0, or what \<open>strconv.ParseFloat\<close> makes of
  the whole cell where the parser falls back to it: bytes after a valid prefix are not
  ignored.
\<close>

theorem GetFloat_whole_cell:
  assumes "csvFormat (pp c) key = Some idx" "0 \<le> idx" "idx < int (length (values' c))"
      and "values' c ! nat idx = cell" "cell \<noteq> ''null''"
      and "fastfloat_ParseBestEffort D = ParseBestEffort F"
  shows "GetFloat D c key nullable = Inr (VFloat64 (ParseBestEffort F cell))
       \<and> (well_formed n \<and> cell = text_of n \<longrightarrow>
            GetFloat D c key nullable
              = Inr (VFloat64 (if fast n then float_of F n else slow_ParseFloat F cell)))
       \<and> (cell \<noteq> [] \<and> \<not> ends_number (last cell) \<longrightarrow>
            GetFloat D c key nullable = Inr (VFloat64 (f64_zero F))
          \<or> GetFloat D c key nullable = Inr (VFloat64 (slow_ParseFloat F cell)))"
proof -
  have g: "GetFloat D c key nullable = Inr (VFloat64 (ParseBestEffort F cell))"
    using assms by (simp add: GetFloat_def index_def)
  have number: "ParseBestEffort F cell
                  = (if fast n then float_of F n else slow_ParseFloat F cell)"
    if "well_formed n" "cell = text_of n"
    using ParseBestEffort_decimal [OF that(1), of F] that(2) by simp
  have garbage: "ParseBestEffort F cell = f64_zero F
                 \<or> ParseBestEffort F cell = slow_ParseFloat F cell"
    if "cell \<noteq> []" "\<not> ends_number (last cell)"
    using ParseBestEffort_trailing_garbage [of cell F] that by blast
  show ?thesis
    unfolding g using number garbage by blast
qed

lemma example_fastfloat_float:
  "fastfloat_ParseBestEffort example_deps = ParseBestEffort example_float64_ops"
  by (simp add: example_deps_def)

lemma ParseBestEffort_3_14_xyz: "ParseBestEffort F ''3.14xyz'' = f64_zero F"
  by (simp add: ParseBestEffort_def ParseBestEffort_fraction_def ParseBestEffort_exponent_def
      scan_int64.simps scan_fraction.simps is_digit_def digit_of_def)

lemmas decimal_text_defs =
  well_formed_def text_of_def fast_def float_of_def decimal_def is_digit_def digit_of_def

lemma decimal_3_14:
  "well_formed \<lparr>negative = False, int_digits = ''3'', frac_digits = ''14'',
      exponent = No_exponent\<rparr>"
  "text_of \<lparr>negative = False, int_digits = ''3'', frac_digits = ''14'',
      exponent = No_exponent\<rparr> = ''3.14''"
  "fast \<lparr>negative = False, int_digits = ''3'', frac_digits = ''14'',
      exponent = No_exponent\<rparr>"
  "float_of example_float64_ops \<lparr>negative = False, int_digits = ''3'', frac_digits = ''14'',
      exponent = No_exponent\<rparr> = 314 / 100"
  by (simp_all add: decimal_text_defs example_float64_ops_def)

lemma decimal_minus_25:
  "well_formed \<lparr>negative = True, int_digits = ''25'', frac_digits = [],
      exponent = No_exponent\<rparr>"
  "text_of \<lparr>negative = True, int_digits = ''25'', frac_digits = [],
      exponent = No_exponent\<rparr> = ''-25''"
  "fast \<lparr>negative = True, int_digits = ''25'', frac_digits = [],
      exponent = No_exponent\<rparr>"
  "float_of example_float64_ops \<lparr>negative = True, int_digits = ''25'', frac_digits = [],
      exponent = No_exponent\<rparr> = - 25"
  by (simp_all add: decimal_text_defs example_float64_ops_def)

lemma decimal_minus_3_14_e_minus_2:
  "well_formed \<lparr>negative = True, int_digits = ''3'', frac_digits = ''14'',
      exponent = Exponent CHR ''e'' ''-'' ''2''\<rparr>"
  "text_of \<lparr>negative = True, int_digits = ''3'', frac_digits = ''14'',
      exponent = Exponent CHR ''e'' ''-'' ''2''\<rparr> = ''-3.14e-2''"
  "fast \<lparr>negative = True, int_digits = ''3'', frac_digits = ''14'',
      exponent = Exponent CHR ''e'' ''-'' ''2''\<rparr>"
  "float_of example_float64_ops \<lparr>negative = True, int_digits = ''3'', frac_digits = ''14'',
      exponent = Exponent CHR ''e'' ''-'' ''2''\<rparr> = - (314 / 10000)"
  by (simp_all add: decimal_text_defs example_float64_ops_def)

lemma decimal_5_E_plus_2:
  "well_formed \<lparr>negative = False, int_digits = ''5'', frac_digits = [],
      exponent = Exponent CHR ''E'' ''+'' ''2''\<rparr>"
  "text_of \<lparr>negative = False, int_digits = ''5'', frac_digits = [],
      exponent = Exponent CHR ''E'' ''+'' ''2''\<rparr> = ''5E+2''"
  "fast \<lparr>negative = False, int_digits = ''5'', frac_digits = [],
      exponent = Exponent CHR ''E'' ''+'' ''2''\<rparr>"
  "float_of example_float64_ops \<lparr>negative = False, int_digits = ''5'', frac_digits = [],
      exponent = Exponent CHR ''E'' ''+'' ''2''\<rparr> = 500"
  by (simp_all add: decimal_text_defs example_float64_ops_def)

lemma decimal_20_digits:
  "well_formed \<lparr>negative = False, int_digits = ''12345678901234567890'', frac_digits = [],
      exponent = No_exponent\<rparr>"
  "text_of \<lparr>negative = False, int_digits = ''12345678901234567890'', frac_digits = [],
      exponent = No_exponent\<rparr> = ''12345678901234567890''"
  "\<not> fast \<lparr>negative = False, int_digits = ''12345678901234567890'', frac_digits = [],
      exponent = No_exponent\<rparr>"
  "slow_ParseFloat example_float64_ops ''12345678901234567890'' = 12345678901234567890"
  by (simp_all add: decimal_text_defs slow_ParseFloat_def example_float64_ops_def)

theorem GetFloat_whole_cell_witness:
  "csvFormat (pp \<lparr>pp = example_pool, values' = [''3.14xyz'', ''3.14'']\<rparr>) ''a'' = Some 0
   \<and> values' \<lparr>pp = example_pool, values' = [''3.14xyz'', ''3.14'']\<rparr> ! nat 0 = ''3.14xyz''
   \<and> ''3.14xyz'' \<noteq> ''null''
   \<and> fastfloat_ParseBestEffort example_deps = ParseBestEffort example_float64_ops
   \<and> \<not> ends_number (last ''3.14xyz'')
   \<and> GetFloat example_deps \<lparr>pp = example_pool, values' = [''3.14xyz'', ''3.14'']\<rparr> ''a'' False
        = Inr (VFloat64 0)
   \<and> csvFormat (pp \<lparr>pp = example_pool, values' = [''3.14xyz'', ''3.14'']\<rparr>) ''b'' = Some 1
   \<and> values' \<lparr>pp = example_pool, values' = [''3.14xyz'', ''3.14'']\<rparr> ! nat 1 = ''3.14''
   \<and> ''3.14'' \<noteq> ''null''
   \<and> well_formed \<lparr>negative = False, int_digits = ''3'', frac_digits = ''14'',
        exponent = No_exponent\<rparr>
   \<and> ''3.14'' = text_of \<lparr>negative = False, int_digits = ''3'', frac_digits = ''14'',
        exponent = No_exponent\<rparr>
   \<and> GetFloat example_deps \<lparr>pp = example_pool, values' = [''3.14xyz'', ''3.14'']\<rparr> ''b'' False
        = Inr (VFloat64 (314 / 100))
   \<and> well_formed \<lparr>negative = True, int_digits = ''25'', frac_digits = [],
        exponent = No_exponent\<rparr>
   \<and> ''-25'' = text_of \<lparr>negative = True, int_digits = ''25'', frac_digits = [],
        exponent = No_exponent\<rparr>
   \<and> GetFloat example_deps \<lparr>pp = example_pool, values' = [''-25'', ''-3.14e-2'']\<rparr> ''a'' False
        = Inr (VFloat64 (- 25))
   \<and> well_formed \<lparr>negative = True, int_digits = ''3'', frac_digits = ''14'',
        exponent = Exponent CHR ''e'' ''-'' ''2''\<rparr>
   \<and> ''-3.14e-2'' = text_of \<lparr>negative = True, int_digits = ''3'', frac_digits = ''14'',
        exponent = Exponent CHR ''e'' ''-'' ''2''\<rparr>
   \<and> GetFloat example_deps \<lparr>pp = example_pool, values' = [''-25'', ''-3.14e-2'']\<rparr> ''b'' False
        = Inr (VFloat64 (- (314 / 10000)))
   \<and> well_formed \<lparr>negative = False, int_digits = ''5'', frac_digits = [],
        exponent = Exponent CHR ''E'' ''+'' ''2''\<rparr>
   \<and> ''5E+2'' = text_of \<lparr>negative = False, int_digits = ''5'', frac_digits = [],
        exponent = Exponent CHR ''E'' ''+'' ''2''\<rparr>
   \<and> GetFloat example_deps
        \<lparr>pp = example_pool, values' = [''5E+2'', ''12345678901234567890'']\<rparr> ''a'' False
        = Inr (VFloat64 500)
   \<and> well_formed \<lparr>negative = False, int_digits = ''12345678901234567890'', frac_digits = [],
        exponent = No_exponent\<rparr>
   \<and> ''12345678901234567890''
        = text_of \<lparr>negative = False, int_digits = ''12345678901234567890'', frac_digits = [],
            exponent = No_exponent\<rparr>
   \<and> \<not> fast \<lparr>negative = False, int_digits = ''12345678901234567890'', frac_digits = [],
        exponent = No_exponent\<rparr>
   \<and> GetFloat example_deps
        \<lparr>pp = example_pool, values' = [''5E+2'', ''12345678901234567890'']\<rparr> ''b'' False
        = Inr (VFloat64 12345678901234567890)"
proof -
  have garbage: "\<not> ends_number (last ''3.14xyz'')"
    by (simp add: ends_number_def is_digit_def)
  have zero: "f64_zero example_float64_ops = 0"
    "slow_ParseFloat example_float64_ops ''3.14xyz'' = 0"
    by (simp_all add: slow_ParseFloat_def example_float64_ops_def)
  have r1: "GetFloat example_deps \<lparr>pp = example_pool, values' = [''3.14xyz'', ''3.14'']\<rparr>
              ''a'' False = Inr (VFloat64 0)"
    using GetFloat_whole_cell [of "\<lparr>pp = example_pool, values' = [''3.14xyz'', ''3.14'']\<rparr>"
            "''a''" 0 "''3.14xyz''" example_deps example_float64_ops False
            "\<lparr>negative = False, int_digits = ''3'', frac_digits = ''14'',
               exponent = No_exponent\<rparr>", THEN conjunct2, THEN conjunct2]
          garbage
    by (simp add: example_known example_fastfloat_float zero)
  have r2: "GetFloat example_deps \<lparr>pp = example_pool, values' = [''3.14xyz'', ''3.14'']\<rparr>
              ''b'' False = Inr (VFloat64 (314 / 100))"
    using GetFloat_whole_cell [of "\<lparr>pp = example_pool, values' = [''3.14xyz'', ''3.14'']\<rparr>"
            "''b''" 1 "''3.14''" example_deps example_float64_ops False
            "\<lparr>negative = False, int_digits = ''3'', frac_digits = ''14'',
               exponent = No_exponent\<rparr>", THEN conjunct2, THEN conjunct1]
    by (simp add: example_known example_fastfloat_float decimal_3_14)
  have r3: "GetFloat example_deps \<lparr>pp = example_pool, values' = [''-25'', ''-3.14e-2'']\<rparr>
              ''a'' False = Inr (VFloat64 (- 25))"
    using GetFloat_whole_cell [of "\<lparr>pp = example_pool, values' = [''-25'', ''-3.14e-2'']\<rparr>"
            "''a''" 0 "''-25''" example_deps example_float64_ops False
            "\<lparr>negative = True, int_digits = ''25'', frac_digits = [],
               exponent = No_exponent\<rparr>", THEN conjunct2, THEN conjunct1]
    by (simp add: example_known example_fastfloat_float decimal_minus_25)
  have r4: "GetFloat example_deps \<lparr>pp = example_pool, values' = [''-25'', ''-3.14e-2'']\<rparr>
              ''b'' False = Inr (VFloat64 (- (314 / 10000)))"
    using GetFloat_whole_cell [of "\<lparr>pp = example_pool, values' = [''-25'', ''-3.14e-2'']\<rparr>"
            "''b''" 1 "''-3.14e-2''" example_deps example_float64_ops False
            "\<lparr>negative = True, int_digits = ''3'', frac_digits = ''14'',
               exponent = Exponent CHR ''e'' ''-'' ''2''\<rparr>", THEN conjunct2, THEN conjunct1]
    by (simp add: example_known example_fastfloat_float decimal_minus_3_14_e_minus_2)
  have r5: "GetFloat example_deps
              \<lparr>pp = example_pool, values' = [''5E+2'', ''12345678901234567890'']\<rparr>
              ''a'' False = Inr (VFloat64 500)"
    using GetFloat_whole_cell
            [of "\<lparr>pp = example_pool, values' = [''5E+2'', ''12345678901234567890'']\<rparr>"
            "''a''" 0 "''5E+2''" example_deps example_float64_ops False
            "\<lparr>negative = False, int_digits = ''5'', frac_digits = [],
               exponent = Exponent CHR ''E'' ''+'' ''2''\<rparr>", THEN conjunct2, THEN conjunct1]
    by (simp add: example_known example_fastfloat_float decimal_5_E_plus_2)
  have r6: "GetFloat example_deps
              \<lparr>pp = example_pool, values' = [''5E+2'', ''12345678901234567890'']\<rparr>
              ''b'' False = Inr (VFloat64 12345678901234567890)"
    using GetFloat_whole_cell
            [of "\<lparr>pp = example_pool, values' = [''5E+2'', ''12345678901234567890'']\<rparr>"
            "''b''" 1 "''12345678901234567890''" example_deps example_float64_ops False
            "\<lparr>negative = False, int_digits = ''12345678901234567890'', frac_digits = [],
               exponent = No_exponent\<rparr>", THEN conjunct2, THEN conjunct1]
    by (simp add: example_known example_fastfloat_float decimal_20_digits)
  show ?thesis
    unfolding r1 r2 r3 r4 r5 r6
    by (simp add: example_known example_fastfloat_float ends_number_def is_digit_def
          decimal_3_14 decimal_minus_25
          decimal_minus_3_14_e_minus_2 decimal_5_E_plus_2 decimal_20_digits)
qed

text \<open>
  C2, as the spec states it, fails on the cell \<open>3.14xyz\<close>: \<open>GetFloat\<close> returns 0.0,
  not 3.14.
\<close>

theorem GetFloat_leading_prefix_counterexample:
  "csvFormat (pp \<lparr>pp = example_pool, values' = [''3.14xyz'', ''3.14'']\<rparr>) ''a'' = Some 0
   \<and> values' \<lparr>pp = example_pool, values' = [''3.14xyz'', ''3.14'']\<rparr> ! 0 = ''3.14xyz''
   \<and> fastfloat_ParseBestEffort example_deps ''3.14xyz'' = 0
   \<and> GetFloat example_deps \<lparr>pp = example_pool, values' = [''3.14xyz'', ''3.14'']\<rparr> ''a'' False
        = Inr (VFloat64 0)
   \<and> GetFloat example_deps \<lparr>pp = example_pool, values' = [''3.14xyz'', ''3.14'']\<rparr> ''a'' False
        \<noteq> Inr (VFloat64 (314 / 100))"
  by (simp add: example_known example_fastfloat_float ParseBestEffort_3_14_xyz GetFloat_def
        index_def)
     (simp add: example_float64_ops_def)

end
